theory Spec2Isabelle
  imports Complex_Main "HOL-Library.Sublist" "HOL-Library.Char_ord" "HOL-Library.List_Lexorder"
    "HOL-Library.Multiset"
begin

section \<open>JavaScript values as the script sees them\<close>

text \<open>
  The episode data reaches \<^verbatim>\<open>script.js\<close> through \<^verbatim>\<open>response.json()\<close>, so every
  value the script handles is a JSON value or \<^verbatim>\<open>undefined\<close> (an absent property).
  Numbers are IEEE doubles in the source; the model keeps the finite ones as rationals
  (every finite double is one; \<^verbatim>\<open>-0\<close> and \<^verbatim>\<open>0\<close> are identified, which no operation of
  the script distinguishes) and has the three non-finite values. Strings are lists of
  code units; the model's characters are 8-bit. An object is the list of its own
  properties, the first binding of a name being the one that counts.
\<close>

datatype jsnum = NaN | NegInf | Fin rat | PosInf

datatype jsval =
    JUndefined
  | JNull
  | JBool bool
  | JNum jsnum
  | JStr string
  | JArr "jsval list"
  | JObj "(string \<times> jsval) list"

text \<open>
  An exception of the source is a value of the model: \<open>TypeError\<close> is what the engine
  throws for a property read on \<^verbatim>\<open>null\<close>/\<^verbatim>\<open>undefined\<close>, a call of something that is not
  a function, or a failed conversion to a primitive; \<open>Failure m\<close> is an \<^verbatim>\<open>Error\<close> (or a
  rejected promise) with message \<open>m\<close>.
\<close>

datatype error = TypeError | Failure string

definition bindE :: "error + 'a \<Rightarrow> ('a \<Rightarrow> error + 'b) \<Rightarrow> error + 'b" where
  "bindE m f = (case m of Inl e \<Rightarrow> Inl e | Inr v \<Rightarrow> f v)"

text \<open>
  What the script leaves to the engine and the host is a parameter of the model:
  \<^item> \<open>number_to_string\<close>: \<^verbatim>\<open>Number::toString\<close> on a finite number;
  \<^item> \<open>string_to_number\<close>: \<^verbatim>\<open>StringToNumber\<close>, the conversion \<^verbatim>\<open>new Date(y, m, d)\<close>,
    \<^verbatim>\<open>m - 1\<close> and \<^verbatim>\<open><\<close> apply to a string operand;
  \<^item> \<open>date_parse\<close>: the time value of \<^verbatim>\<open>new Date(text)\<close>, \<open>None\<close> for \<^verbatim>\<open>NaN\<close>
    (implementation-defined outside the ISO format);
  \<^item> \<open>local_to_utc\<close>: the host time zone, as the map from a local time in
    milliseconds to the time value (\<^verbatim>\<open>UTC(t)\<close> of ECMA-262);
  \<^item> \<open>local_year\<close>: \<^verbatim>\<open>getFullYear\<close> of a valid time value, in the host time zone;
  \<^item> \<open>type_error_message\<close>: the \<^verbatim>\<open>message\<close> of the engine's \<^verbatim>\<open>TypeError\<close> (its wording
    varies with the engine and the operation; the script only displays it).
\<close>

record runtime =
  number_to_string :: "rat \<Rightarrow> string"
  string_to_number :: "string \<Rightarrow> jsnum"
  date_parse :: "string \<Rightarrow> int option"
  local_to_utc :: "int \<Rightarrow> int"
  local_year :: "int \<Rightarrow> int"
  type_error_message :: string

definition dquote :: char where
  "dquote = CHR 0x22"

definition newline :: char where
  "newline = CHR 0x0A"

definition comma :: char where
  "comma = CHR '',''"

definition squote :: char where
  "squote = CHR 0x27"

subsection \<open>Truthiness, property reads, conversion to string\<close>

fun truthy :: "jsval \<Rightarrow> bool" where
  "truthy JUndefined = False"
| "truthy JNull = False"
| "truthy (JBool b) = b"
| "truthy (JNum n) = (n \<noteq> NaN \<and> n \<noteq> Fin 0)"
| "truthy (JStr s) = (s \<noteq> [])"
| "truthy (JArr xs) = True"
| "truthy (JObj kvs) = True"

text \<open>\<^verbatim>\<open>v == null\<close>, also the test of \<^verbatim>\<open>?.\<close> and \<^verbatim>\<open>??\<close>.\<close>

fun nullish :: "jsval \<Rightarrow> bool" where
  "nullish JUndefined = True"
| "nullish JNull = True"
| "nullish v = False"

text \<open>
  \<open>get_prop v k\<close> is \<^verbatim>\<open>v?.k\<close>: \<^verbatim>\<open>undefined\<close> on \<^verbatim>\<open>null\<close>/\<^verbatim>\<open>undefined\<close>, the own property of an
  object, \<^verbatim>\<open>length\<close> of an array or a string. The names the script reads are the ten
  episode fields, \<^verbatim>\<open>actor\<close>, \<^verbatim>\<open>incarnation\<close>, \<^verbatim>\<open>character\<close>, \<^verbatim>\<open>episodes\<close> and \<^verbatim>\<open>length\<close>;
  inherited members (\<^verbatim>\<open>constructor\<close>, ...) and index names are not modelled.
\<close>

fun get_prop :: "jsval \<Rightarrow> string \<Rightarrow> jsval" where
  "get_prop (JObj kvs) k = (case map_of kvs k of Some v \<Rightarrow> v | None \<Rightarrow> JUndefined)"
| "get_prop (JArr xs) k = (if k = ''length'' then JNum (Fin (of_nat (length xs))) else JUndefined)"
| "get_prop (JStr s) k = (if k = ''length'' then JNum (Fin (of_nat (length s))) else JUndefined)"
| "get_prop v k = JUndefined"

text \<open>\<open>member v k\<close> is \<^verbatim>\<open>v.k\<close>, which throws on \<^verbatim>\<open>null\<close>/\<^verbatim>\<open>undefined\<close>.\<close>

definition member :: "jsval \<Rightarrow> string \<Rightarrow> error + jsval" where
  "member v k = (if nullish v then Inl TypeError else Inr (get_prop v k))"

definition num_to_string :: "runtime \<Rightarrow> jsnum \<Rightarrow> string" where
  "num_to_string rt n =
     (case n of NaN \<Rightarrow> ''NaN'' | PosInf \<Rightarrow> ''Infinity'' | NegInf \<Rightarrow> ''-Infinity''
      | Fin r \<Rightarrow> number_to_string rt r)"

text \<open>
  \<^verbatim>\<open>String(v)\<close>, \<^verbatim>\<open>`${v}`\<close> and \<^verbatim>\<open>v.toString()\<close> on a value that is not
  \<^verbatim>\<open>null\<close>/\<^verbatim>\<open>undefined\<close>. An array joins its elements with commas, \<^verbatim>\<open>null\<close> and
  \<^verbatim>\<open>undefined\<close> elements as the empty string. A parsed object has no callable own
  property, so one that carries an own \<^verbatim>\<open>toString\<close> makes the conversion throw; any
  other prints as \<^verbatim>\<open>[object Object]\<close>.
\<close>

fun to_string :: "runtime \<Rightarrow> jsval \<Rightarrow> error + string"
  and join_elements :: "runtime \<Rightarrow> jsval list \<Rightarrow> error + string" where
  "to_string rt JUndefined = Inr ''undefined''"
| "to_string rt JNull = Inr ''null''"
| "to_string rt (JBool b) = Inr (if b then ''true'' else ''false'')"
| "to_string rt (JNum n) = Inr (num_to_string rt n)"
| "to_string rt (JStr s) = Inr s"
| "to_string rt (JArr xs) = join_elements rt xs"
| "to_string rt (JObj kvs) =
     (if ''toString'' \<in> fst ` set kvs then Inl TypeError else Inr ''[object Object]'')"
| "join_elements rt [] = Inr []"
| "join_elements rt (x # xs) =
     (case (if nullish x then Inr [] else to_string rt x) of
        Inl e \<Rightarrow> Inl e
      | Inr s \<Rightarrow>
          (if xs = [] then Inr s
           else (case join_elements rt xs of
                   Inl e \<Rightarrow> Inl e
                 | Inr t \<Rightarrow> Inr (s @ [comma] @ t))))"

subsection \<open>String methods\<close>

text \<open>\<^verbatim>\<open>toLowerCase\<close> on the ASCII letters; other code units are left as they are.\<close>

definition lower_char :: "char \<Rightarrow> char" where
  "lower_char c =
     (case map_of (zip ''ABCDEFGHIJKLMNOPQRSTUVWXYZ'' ''abcdefghijklmnopqrstuvwxyz'') c of
        Some l \<Rightarrow> l
      | None \<Rightarrow> c)"

definition toLowerCase :: "string \<Rightarrow> string" where
  "toLowerCase s = map lower_char s"

text \<open>\<^verbatim>\<open>s.includes(t)\<close>: \<open>t\<close> occurs in \<open>s\<close> as a contiguous run.\<close>

definition str_includes :: "string \<Rightarrow> string \<Rightarrow> bool" where
  "str_includes s t = sublist t s"

text \<open>
  \<^verbatim>\<open>v.toLowerCase()\<close> on an arbitrary value: only strings have the method (a parsed
  object can hold no function), so everything else throws.
\<close>

fun call_toLowerCase :: "jsval \<Rightarrow> error + string" where
  "call_toLowerCase (JStr s) = Inr (toLowerCase s)"
| "call_toLowerCase v = Inl TypeError"

text \<open>\<^verbatim>\<open>v?.toLowerCase() ?? ''\<close>\<close>

definition lower_or_empty :: "jsval \<Rightarrow> error + string" where
  "lower_or_empty v = (if nullish v then Inr [] else call_toLowerCase v)"

section \<open>Numbers and dates\<close>

text \<open>\<^verbatim>\<open>ToPrimitive\<close>: an array or object becomes its string; a primitive is itself.\<close>

definition to_primitive :: "runtime \<Rightarrow> jsval \<Rightarrow> error + jsval" where
  "to_primitive rt v =
     (case v of
        JArr xs \<Rightarrow> bindE (to_string rt v) (\<lambda>s. Inr (JStr s))
      | JObj kvs \<Rightarrow> bindE (to_string rt v) (\<lambda>s. Inr (JStr s))
      | _ \<Rightarrow> Inr v)"

text \<open>\<^verbatim>\<open>ToNumber\<close> of a primitive (the array and object cases never reach it).\<close>

fun prim_to_number :: "runtime \<Rightarrow> jsval \<Rightarrow> jsnum" where
  "prim_to_number rt JUndefined = NaN"
| "prim_to_number rt JNull = Fin 0"
| "prim_to_number rt (JBool b) = Fin (if b then 1 else 0)"
| "prim_to_number rt (JNum n) = n"
| "prim_to_number rt (JStr s) = string_to_number rt s"
| "prim_to_number rt v = NaN"

definition to_number :: "runtime \<Rightarrow> jsval \<Rightarrow> error + jsnum" where
  "to_number rt v = bindE (to_primitive rt v) (\<lambda>p. Inr (prim_to_number rt p))"

text \<open>\<^verbatim>\<open>n - 1\<close>, in exact arithmetic on the finite numbers.\<close>

fun minus_one :: "jsnum \<Rightarrow> jsnum" where
  "minus_one (Fin r) = Fin (r - 1)"
| "minus_one n = n"

text \<open>\<^verbatim>\<open>a < b\<close> on numbers: false as soon as one side is \<^verbatim>\<open>NaN\<close>.\<close>

fun num_lt :: "jsnum \<Rightarrow> jsnum \<Rightarrow> bool" where
  "num_lt NaN b = False"
| "num_lt a NaN = False"
| "num_lt NegInf b = (b \<noteq> NegInf)"
| "num_lt a NegInf = False"
| "num_lt PosInf b = False"
| "num_lt a PosInf = True"
| "num_lt (Fin x) (Fin y) = (x < y)"

text \<open>
  A \<^verbatim>\<open>Date\<close> object is its time value: milliseconds since the epoch, or \<^verbatim>\<open>NaN\<close> for an
  invalid date.
\<close>

datatype jsdate = InvalidDate | DateAt int

definition ms_per_day :: int where
  "ms_per_day = 86400000"

text \<open>\<^verbatim>\<open>ToIntegerOrInfinity\<close> on a finite number: truncation towards zero.\<close>

definition truncate_rat :: "rat \<Rightarrow> int" where
  "truncate_rat r = (if 0 \<le> r then \<lfloor>r\<rfloor> else \<lceil>r\<rceil>)"

text \<open>\<^verbatim>\<open>DayFromYear\<close>, \<^verbatim>\<open>InLeapYear\<close> and the day of the year a month starts on (ECMA-262).\<close>

definition day_from_year :: "int \<Rightarrow> int" where
  "day_from_year y =
     365 * (y - 1970) + (y - 1969) div 4 - (y - 1901) div 100 + (y - 1601) div 400"

definition in_leap_year :: "int \<Rightarrow> bool" where
  "in_leap_year y = ((y mod 4 = 0 \<and> y mod 100 \<noteq> 0) \<or> y mod 400 = 0)"

definition month_start :: "int \<Rightarrow> nat \<Rightarrow> int" where
  "month_start y mn =
     [0, 31, 59, 90, 120, 151, 181, 212, 243, 273, 304, 334] ! mn
       + (if 2 \<le> mn \<and> in_leap_year y then 1 else 0)"

text \<open>
  \<^verbatim>\<open>MakeDay(year, month, date)\<close> on finite arguments: the months carry into the year,
  the day of the month is added as a plain offset (so day 0, day 32, month 13 roll
  over into the neighbouring month or year).
\<close>

definition make_day :: "rat \<Rightarrow> rat \<Rightarrow> rat \<Rightarrow> int" where
  "make_day year month date =
     (let y = truncate_rat year; m = truncate_rat month; dt = truncate_rat date;
          ym = y + m div 12; mn = nat (m mod 12)
      in day_from_year ym + month_start ym mn + dt - 1)"

text \<open>\<^verbatim>\<open>TimeClip\<close>\<close>

definition time_clip :: "int \<Rightarrow> jsdate" where
  "time_clip t = (if \<bar>t\<bar> > 8640000000000000 then InvalidDate else DateAt t)"

text \<open>
  \<^verbatim>\<open>new Date(y, m, d)\<close> on the numbers its arguments convert to. A year from 0 to 99
  means 1900 + year; a \<^verbatim>\<open>NaN\<close> or infinite argument gives an invalid date; the date is
  midnight of that day in the host's time zone.
\<close>

fun new_Date_ymd :: "runtime \<Rightarrow> jsnum \<Rightarrow> jsnum \<Rightarrow> jsnum \<Rightarrow> jsdate" where
  "new_Date_ymd rt (Fin y) (Fin m) (Fin d) =
     (let yi = truncate_rat y;
          yr = (if 0 \<le> yi \<and> yi \<le> 99 then of_int (1900 + yi) else y)
      in time_clip (local_to_utc rt (make_day yr m d * ms_per_day)))"
| "new_Date_ymd rt y m d = InvalidDate"

text \<open>
  \<^verbatim>\<open>new Date(v)\<close>: a value whose primitive is a string is parsed; any other is
  converted to a number and taken as the time value.
\<close>

definition time_clip_num :: "jsnum \<Rightarrow> jsdate" where
  "time_clip_num n = (case n of Fin r \<Rightarrow> time_clip (truncate_rat r) | _ \<Rightarrow> InvalidDate)"

definition new_Date_value :: "runtime \<Rightarrow> jsval \<Rightarrow> error + jsdate" where
  "new_Date_value rt v =
     bindE (to_primitive rt v) (\<lambda>p.
       case p of
         JStr s \<Rightarrow> Inr (case date_parse rt s of None \<Rightarrow> InvalidDate | Some t \<Rightarrow> time_clip t)
       | _ \<Rightarrow> Inr (time_clip_num (prim_to_number rt p)))"

text \<open>\<^verbatim>\<open>date.getTime()\<close>\<close>

fun getTime :: "jsdate \<Rightarrow> jsnum" where
  "getTime InvalidDate = NaN"
| "getTime (DateAt t) = Fin (of_int t)"

text \<open>\<^verbatim>\<open>/^\d{4}$/.test(text)\<close>\<close>

definition is_digit :: "char \<Rightarrow> bool" where
  "is_digit c = (c \<in> set ''0123456789'')"

definition is_four_digits :: "string \<Rightarrow> bool" where
  "is_four_digits s = (length s = 4 \<and> list_all is_digit s)"

text \<open>\<^verbatim>\<open>s.split('/')\<close>\<close>

fun split_slash :: "string \<Rightarrow> string list" where
  "split_slash [] = [[]]"
| "split_slash (c # s) =
     (if c = CHR ''/'' then [] # split_slash s
      else (case split_slash s of [] \<Rightarrow> [[c]] | p # ps \<Rightarrow> (c # p) # ps))"

text \<open>An element of the destructured \<^verbatim>\<open>[d, m, y]\<close>: \<^verbatim>\<open>undefined\<close> past the end.\<close>

definition part :: "string list \<Rightarrow> nat \<Rightarrow> jsval" where
  "part ps i = (if i < length ps then JStr (ps ! i) else JUndefined)"

text \<open>
  \<^verbatim>\<open>dateStr.includes('/')\<close> and \<^verbatim>\<open>dateStr.split('/')\<close> on an arbitrary value. Strings
  and arrays have \<^verbatim>\<open>includes\<close> (on an array it looks for an element equal to
  \<^verbatim>\<open>'/'\<close>); only strings have \<^verbatim>\<open>split\<close>.
\<close>

fun call_includes_slash :: "jsval \<Rightarrow> error + bool" where
  "call_includes_slash (JStr s) = Inr (str_includes s ''/'')"
| "call_includes_slash (JArr xs) = Inr (JStr ''/'' \<in> set xs)"
| "call_includes_slash v = Inl TypeError"

fun call_split_slash :: "jsval \<Rightarrow> error + string list" where
  "call_split_slash (JStr s) = Inr (split_slash s)"
| "call_split_slash v = Inl TypeError"

text \<open>\<^verbatim>\<open>normalizeDate(dateStr)\<close>; \<open>None\<close> is the source's \<^verbatim>\<open>null\<close>.\<close>

definition normalizeDate :: "runtime \<Rightarrow> jsval \<Rightarrow> error + jsdate option" where
  "normalizeDate rt dateStr =
     (if \<not> truthy dateStr then Inr None
      else
        bindE (to_string rt dateStr) (\<lambda>text.
        if is_four_digits text then
          bindE (to_number rt dateStr) (\<lambda>y. Inr (Some (new_Date_ymd rt y (Fin 0) (Fin 1))))
        else
          bindE (call_includes_slash dateStr) (\<lambda>has_slash.
          if has_slash then
            bindE (call_split_slash dateStr) (\<lambda>ps.
              let d = part ps 0; m = part ps 1; y = part ps 2
              in Inr (Some (new_Date_ymd rt (prim_to_number rt y)
                              (minus_one (prim_to_number rt m)) (prim_to_number rt d))))
          else
            bindE (new_Date_value rt dateStr) (\<lambda>date.
              Inr (if getTime date = NaN then None else Some date)))))"

text \<open>\<^verbatim>\<open>getYear(dateStr)\<close>: the year as a number (\<^verbatim>\<open>NaN\<close> for an invalid date) or \<^verbatim>\<open>"N/A"\<close>.\<close>

definition getYear :: "runtime \<Rightarrow> jsval \<Rightarrow> error + jsval" where
  "getYear rt dateStr =
     bindE (normalizeDate rt dateStr) (\<lambda>date.
       Inr (case date of
              None \<Rightarrow> JStr ''N/A''
            | Some InvalidDate \<Rightarrow> JNum NaN
            | Some (DateAt t) \<Rightarrow> JNum (Fin (of_int (local_year rt t)))))"

section \<open>Validator\<close>

definition requiredFields :: "string list" where
  "requiredFields = [''rank'', ''title'', ''era'', ''broadcast_date'']"

text \<open>
  The identifier of an episode in a warning. The source's template closes the
  parenthesis outside the alternative, so a titled episode reads
  \<^verbatim>\<open>Episode "Title)"\<close>.
\<close>

definition episode_id :: "runtime \<Rightarrow> jsval \<Rightarrow> nat \<Rightarrow> error + string" where
  "episode_id rt episode index =
     bindE (member episode ''title'') (\<lambda>title.
     bindE (if truthy title then to_string rt title
            else Inr (''(Untitled at index '' @ number_to_string rt (of_nat index))) (\<lambda>inner.
       Inr (''Episode '' @ [dquote] @ inner @ '')'' @ [dquote])))"

definition missing_field_warning :: "string \<Rightarrow> string \<Rightarrow> string" where
  "missing_field_warning ident field =
     ''Validation Error: '' @ ident @ '' is missing required field '' @ [squote] @ field @ [squote] @ ''.''"

definition future_date_warning :: "string \<Rightarrow> string" where
  "future_date_warning ident = ''Validation Error: '' @ ident @ '' has a future broadcast date.''"

definition invalid_rank_warning :: "string \<Rightarrow> string" where
  "invalid_rank_warning ident = ''Validation Error: '' @ ident @ '' has an invalid (non-numeric) rank.''"

definition duplicate_rank_warning :: "runtime \<Rightarrow> rat \<Rightarrow> string \<Rightarrow> string" where
  "duplicate_rank_warning rt r ident =
     ''Validation Error: Duplicate rank '' @ [squote] @ number_to_string rt r @ [squote]
       @ '' found on '' @ ident @ ''.''"

definition negative_series_warning :: "string \<Rightarrow> string" where
  "negative_series_warning ident = ''Validation Error: '' @ ident @ '' has a negative series number.''"

text \<open>Validation 1: the required fields that are \<^verbatim>\<open>null\<close>, \<^verbatim>\<open>undefined\<close> or \<^verbatim>\<open>''\<close>.\<close>

definition check_required :: "jsval \<Rightarrow> string \<Rightarrow> string list" where
  "check_required episode ident =
     concat (map (\<lambda>field.
                    if nullish (get_prop episode field) \<or> get_prop episode field = JStr []
                    then [missing_field_warning ident field] else [])
                 requiredFields)"

text \<open>Validation 2: \<^verbatim>\<open>date && date > now\<close>; an invalid date compares false.\<close>

definition check_future :: "jsdate option \<Rightarrow> int \<Rightarrow> string \<Rightarrow> string list" where
  "check_future date now ident =
     (case date of
        Some d \<Rightarrow> (if num_lt (Fin (of_int now)) (getTime d) then [future_date_warning ident] else [])
      | None \<Rightarrow> [])"

text \<open>
  Validation 3, with the set \<^verbatim>\<open>seenRanks\<close> as the list of its members: the warnings
  and the set afterwards.
\<close>

definition check_rank :: "runtime \<Rightarrow> jsval \<Rightarrow> rat list \<Rightarrow> string \<Rightarrow> string list \<times> rat list" where
  "check_rank rt rank seenRanks ident =
     (case rank of
        JNum (Fin r) \<Rightarrow>
          (if r \<in> set seenRanks then ([duplicate_rank_warning rt r ident], seenRanks)
           else ([], r # seenRanks))
      | _ \<Rightarrow> ([invalid_rank_warning ident], seenRanks))"

text \<open>Validation 4: \<^verbatim>\<open>typeof series === 'number' && series < 0\<close>\<close>

definition check_series :: "jsval \<Rightarrow> string \<Rightarrow> string list" where
  "check_series series ident =
     (case series of
        JNum n \<Rightarrow> (if num_lt n (Fin 0) then [negative_series_warning ident] else [])
      | _ \<Rightarrow> [])"

text \<open>The body of the \<^verbatim>\<open>forEach\<close>: the warnings one episode adds, and \<^verbatim>\<open>seenRanks\<close> after it.\<close>

definition validate_episode ::
  "runtime \<Rightarrow> int \<Rightarrow> rat list \<Rightarrow> jsval \<Rightarrow> nat \<Rightarrow> error + (string list \<times> rat list)" where
  "validate_episode rt now seenRanks episode index =
     bindE (episode_id rt episode index) (\<lambda>ident.
     bindE (normalizeDate rt (get_prop episode ''broadcast_date'')) (\<lambda>date.
       let (rank_warnings, seen) = check_rank rt (get_prop episode ''rank'') seenRanks ident
       in Inr (check_required episode ident @ check_future date now ident @ rank_warnings
                 @ check_series (get_prop episode ''series'') ident,
               seen)))"

text \<open>The \<^verbatim>\<open>forEach\<close> from a given index and set of seen ranks; an exception ends it.\<close>

fun validate_from ::
  "runtime \<Rightarrow> int \<Rightarrow> rat list \<Rightarrow> nat \<Rightarrow> jsval list \<Rightarrow> error + string list" where
  "validate_from rt now seenRanks index [] = Inr []"
| "validate_from rt now seenRanks index (episode # rest) =
     (case validate_episode rt now seenRanks episode index of
        Inl e \<Rightarrow> Inl e
      | Inr (warnings, seen) \<Rightarrow>
          (case validate_from rt now seen (Suc index) rest of
             Inl e \<Rightarrow> Inl e
           | Inr later \<Rightarrow> Inr (warnings @ later)))"

text \<open>\<^verbatim>\<open>validateData(episodes)\<close>, with the value of \<^verbatim>\<open>new Date()\<close> as \<open>now\<close>.\<close>

definition validateData :: "runtime \<Rightarrow> int \<Rightarrow> jsval list \<Rightarrow> error + string list" where
  "validateData rt now episodes = validate_from rt now [] 0 episodes"


section \<open>Formatters\<close>

text \<open>
  \<^verbatim>\<open>formatDoctor(d, includeInc = true)\<close>. With \<open>includeInc\<close> false the source returns
  \<^verbatim>\<open>d.actor\<close> itself, whatever its type, so the result is a value, not a string.
\<close>

definition formatDoctor :: "runtime \<Rightarrow> jsval \<Rightarrow> bool \<Rightarrow> error + jsval" where
  "formatDoctor rt d includeInc =
     (if \<not> truthy (get_prop d ''actor'') then Inr (JStr ''N/A'')
      else if includeInc then
        bindE (to_string rt (get_prop d ''actor'')) (\<lambda>a.
        bindE (to_string rt (if truthy (get_prop d ''incarnation'')
                             then get_prop d ''incarnation'' else JStr ''N/A'')) (\<lambda>i.
        Inr (JStr (a @ '' ('' @ i @ '')''))))
      else Inr (get_prop d ''actor''))"

definition formatCompanion :: "runtime \<Rightarrow> jsval \<Rightarrow> bool \<Rightarrow> error + jsval" where
  "formatCompanion rt c includeChar =
     (if \<not> truthy (get_prop c ''actor'') then Inr (JStr ''N/A'')
      else if includeChar then
        bindE (to_string rt (get_prop c ''actor'')) (\<lambda>a.
        bindE (to_string rt (if truthy (get_prop c ''character'')
                             then get_prop c ''character'' else JStr ''N/A'')) (\<lambda>ch.
        Inr (JStr (a @ '' ('' @ ch @ '')''))))
      else Inr (get_prop c ''actor''))"

section \<open>CSV escaping\<close>

text \<open>\<^verbatim>\<open>/[",\n]/.test(s)\<close>\<close>

definition needs_quoting :: "string \<Rightarrow> bool" where
  "needs_quoting s = list_ex (\<lambda>c. c = dquote \<or> c = comma \<or> c = newline) s"

text \<open>\<^verbatim>\<open>s.replace(/"/g, '""')\<close>\<close>

definition double_quotes :: "string \<Rightarrow> string" where
  "double_quotes s = concat (map (\<lambda>c. if c = dquote then [dquote, dquote] else [c]) s)"

definition escapeCSV :: "runtime \<Rightarrow> jsval \<Rightarrow> error + string" where
  "escapeCSV rt v =
     bindE (to_string rt (if nullish v then JStr [] else v)) (\<lambda>stringValue.
       Inr (if needs_quoting stringValue
            then [dquote] @ double_quotes stringValue @ [dquote]
            else stringValue))"

text \<open>
  Reading a field back as RFC 4180 describes it (this half is not in the script; it
  follows the RFC's words): a field enclosed in double quotes stands for its inside
  with every pair of double quotes read as one; any other field stands for itself.
\<close>

fun undouble_quotes :: "string \<Rightarrow> string" where
  "undouble_quotes (c # d # s) =
     (if c = dquote \<and> d = dquote then dquote # undouble_quotes s
      else c # undouble_quotes (d # s))"
| "undouble_quotes s = s"

definition rfc4180_unescape :: "string \<Rightarrow> string" where
  "rfc4180_unescape f =
     (if 2 \<le> length f \<and> hd f = dquote \<and> last f = dquote
      then undouble_quotes (butlast (tl f)) else f)"

section \<open>View engine\<close>

text \<open>The predicate of \<^verbatim>\<open>state.episodes.filter\<close>, on the lower-cased filter text.\<close>

definition matches_filter :: "runtime \<Rightarrow> string \<Rightarrow> jsval \<Rightarrow> error + bool" where
  "matches_filter rt filterText ep =
     bindE (member ep ''title'') (\<lambda>t. bindE (lower_or_empty t) (\<lambda>title.
     bindE (member ep ''doctor'') (\<lambda>d. bindE (formatDoctor rt d False) (\<lambda>fd.
     bindE (call_toLowerCase fd) (\<lambda>doctor.
     bindE (member ep ''companion'') (\<lambda>c. bindE (formatCompanion rt c False) (\<lambda>fc.
     bindE (call_toLowerCase fc) (\<lambda>companion.
     bindE (member ep ''writer'') (\<lambda>w. bindE (lower_or_empty w) (\<lambda>writer.
     bindE (member ep ''director'') (\<lambda>di. bindE (lower_or_empty di) (\<lambda>director.
       Inr (str_includes title filterText \<or> str_includes doctor filterText
            \<or> str_includes companion filterText \<or> str_includes writer filterText
            \<or> str_includes director filterText)))))))))))))"

text \<open>\<^verbatim>\<open>Array.prototype.filter\<close> with a predicate that may throw.\<close>

fun array_filter :: "('a \<Rightarrow> error + bool) \<Rightarrow> 'a list \<Rightarrow> error + 'a list" where
  "array_filter p [] = Inr []"
| "array_filter p (x # xs) =
     (case p x of
        Inl e \<Rightarrow> Inl e
      | Inr keep \<Rightarrow>
          (case array_filter p xs of
             Inl e \<Rightarrow> Inl e
           | Inr ys \<Rightarrow> Inr (if keep then x # ys else ys)))"

text \<open>\<^verbatim>\<open>ep.cast?.length || 0\<close>\<close>

definition cast_count :: "jsval \<Rightarrow> jsval" where
  "cast_count ep =
     (if truthy (get_prop (get_prop ep ''cast'') ''length'')
      then get_prop (get_prop ep ''cast'') ''length'' else JNum (Fin 0))"

text \<open>\<^verbatim>\<open>normalizeDate(...)?.getTime() || 0\<close> on the result of \<^verbatim>\<open>normalizeDate\<close>\<close>

definition epoch_or_zero :: "jsdate option \<Rightarrow> jsval" where
  "epoch_or_zero date =
     (case date of
        None \<Rightarrow> JNum (Fin 0)
      | Some d \<Rightarrow> (if truthy (JNum (getTime d)) then JNum (getTime d) else JNum (Fin 0)))"

definition getSortValue :: "runtime \<Rightarrow> jsval \<Rightarrow> string \<Rightarrow> error + jsval" where
  "getSortValue rt ep field =
     (if field = ''doctor'' then
        bindE (member ep ''doctor'') (\<lambda>d. bindE (formatDoctor rt d False) (\<lambda>f.
        bindE (call_toLowerCase f) (\<lambda>s. Inr (JStr s))))
      else if field = ''companion'' then
        bindE (member ep ''companion'') (\<lambda>c. bindE (formatCompanion rt c False) (\<lambda>f.
        bindE (call_toLowerCase f) (\<lambda>s. Inr (JStr s))))
      else if field = ''cast_count'' then
        bindE (member ep ''cast'') (\<lambda>c. Inr (cast_count ep))
      else if field = ''broadcast_date'' then
        bindE (member ep ''broadcast_date'') (\<lambda>b. bindE (normalizeDate rt b) (\<lambda>date.
          Inr (epoch_or_zero date)))
      else
        bindE (member ep field) (\<lambda>v.
        bindE (to_string rt (if truthy v then v else JStr [])) (\<lambda>s.
          Inr (JStr (toLowerCase s)))))"

text \<open>
  \<^verbatim>\<open>a < b\<close> on values: both sides are made primitive; two strings compare by code
  units, anything else as numbers.
\<close>

definition js_lt :: "runtime \<Rightarrow> jsval \<Rightarrow> jsval \<Rightarrow> error + bool" where
  "js_lt rt a b =
     bindE (to_primitive rt a) (\<lambda>pa. bindE (to_primitive rt b) (\<lambda>pb.
       case (pa, pb) of
         (JStr s, JStr t) \<Rightarrow> Inr (s < t)
       | _ \<Rightarrow> Inr (num_lt (prim_to_number rt pa) (prim_to_number rt pb))))"

text \<open>The comparator handed to \<^verbatim>\<open>processedData.sort\<close>.\<close>

definition compare_episodes :: "runtime \<Rightarrow> string \<Rightarrow> bool \<Rightarrow> jsval \<Rightarrow> jsval \<Rightarrow> error + int" where
  "compare_episodes rt field ascending a b =
     (let direction = (if ascending then 1 else - 1) in
      bindE (getSortValue rt a field) (\<lambda>valA.
      bindE (getSortValue rt b field) (\<lambda>valB.
      bindE (js_lt rt valA valB) (\<lambda>less.
        if less then Inr (- 1 * direction)
        else bindE (js_lt rt valB valA) (\<lambda>greater.
               Inr ((if greater then 1 else 0) * direction))))))"

text \<open>
  \<^verbatim>\<open>Array.prototype.sort\<close> with a comparator. ECMAScript (since 2019) requires the sort
  to be stable and, for a consistent comparator, fixes the result; the model is the
  insertion sort that places an element before the first one it does not come after.
  With an inconsistent comparator the order is the engine's own, and nothing below
  is stated for it. An exception of the comparator ends the sort.
\<close>

fun insert_sorted :: "('a \<Rightarrow> 'a \<Rightarrow> error + int) \<Rightarrow> 'a \<Rightarrow> 'a list \<Rightarrow> error + 'a list" where
  "insert_sorted cmp x [] = Inr [x]"
| "insert_sorted cmp x (y # ys) =
     (case cmp x y of
        Inl e \<Rightarrow> Inl e
      | Inr c \<Rightarrow>
          (if c \<le> 0 then Inr (x # y # ys)
           else (case insert_sorted cmp x ys of
                   Inl e \<Rightarrow> Inl e
                 | Inr r \<Rightarrow> Inr (y # r))))"

fun array_sort :: "('a \<Rightarrow> 'a \<Rightarrow> error + int) \<Rightarrow> 'a list \<Rightarrow> error + 'a list" where
  "array_sort cmp [] = Inr []"
| "array_sort cmp (x # xs) =
     (case array_sort cmp xs of
        Inl e \<Rightarrow> Inl e
      | Inr tail_sorted \<Rightarrow> insert_sorted cmp x tail_sorted)"

text \<open>The filtered and sorted sequence \<^verbatim>\<open>applyFiltersAndSort\<close> computes.\<close>

definition visible_sequence ::
  "runtime \<Rightarrow> jsval list \<Rightarrow> string \<Rightarrow> string \<Rightarrow> bool \<Rightarrow> error + jsval list" where
  "visible_sequence rt eps name field ascending =
     bindE (array_filter (matches_filter rt (toLowerCase name)) eps) (\<lambda>processedData.
       array_sort (compare_episodes rt field ascending) processedData)"

section \<open>Table rows and CSV export\<close>

fun mapE :: "('a \<Rightarrow> error + 'b) \<Rightarrow> 'a list \<Rightarrow> error + 'b list" where
  "mapE f [] = Inr []"
| "mapE f (x # xs) =
     (case f x of
        Inl e \<Rightarrow> Inl e
      | Inr y \<Rightarrow> (case mapE f xs of Inl e \<Rightarrow> Inl e | Inr ys \<Rightarrow> Inr (y # ys)))"

text \<open>\<^verbatim>\<open>parts.join(sep)\<close> on strings\<close>

fun join_with :: "string \<Rightarrow> string list \<Rightarrow> string" where
  "join_with sep [] = []"
| "join_with sep [x] = x"
| "join_with sep (x # y # ys) = x @ sep @ join_with sep (y # ys)"

text \<open>
  The ten values of a row, in column order; \<^verbatim>\<open>displayEpisodes\<close> and \<^verbatim>\<open>exportToCSV\<close>
  compute the same ten expressions.
\<close>

definition row_values :: "runtime \<Rightarrow> jsval \<Rightarrow> (error + jsval) list" where
  "row_values rt ep =
     [member ep ''rank'', member ep ''title'', member ep ''series'', member ep ''era'',
      bindE (member ep ''broadcast_date'') (getYear rt),
      member ep ''director'', member ep ''writer'',
      bindE (member ep ''doctor'') (\<lambda>d. formatDoctor rt d True),
      bindE (member ep ''companion'') (\<lambda>c. formatCompanion rt c True),
      bindE (member ep ''cast'') (\<lambda>c. Inr (cast_count ep))]"

text \<open>\<^verbatim>\<open>cell.textContent = text ?? 'N/A'\<close>\<close>

definition cell_text :: "runtime \<Rightarrow> jsval \<Rightarrow> error + string" where
  "cell_text rt text = to_string rt (if nullish text then JStr ''N/A'' else text)"

text \<open>
  \<^verbatim>\<open>displayEpisodes\<close>, as far as the script's own state can tell: the texts of the
  table's cells, or the exception that ends the rendering.
\<close>

definition displayEpisodes :: "runtime \<Rightarrow> jsval list \<Rightarrow> error + string list list" where
  "displayEpisodes rt eps =
     mapE (\<lambda>episode. mapE (\<lambda>v. bindE v (cell_text rt)) (row_values rt episode)) eps"

definition csv_headers :: "string list" where
  "csv_headers = [''Rank'', ''Title'', ''Series'', ''Era'', ''Year'', ''Director'', ''Writer'',
                  ''Doctor'', ''Companion'', ''Cast Count'']"

definition csv_line :: "runtime \<Rightarrow> jsval list \<Rightarrow> error + string" where
  "csv_line rt row = bindE (mapE (escapeCSV rt) row) (\<lambda>cells. Inr (join_with [comma] cells))"

text \<open>\<^verbatim>\<open>exportToCSV\<close>: the text of the file handed to the download.\<close>

definition exportToCSV :: "runtime \<Rightarrow> jsval list \<Rightarrow> error + string" where
  "exportToCSV rt visible =
     bindE (mapE (\<lambda>ep. mapE (\<lambda>v. v) (row_values rt ep)) visible) (\<lambda>dataRows.
     bindE (csv_line rt (map JStr csv_headers)) (\<lambda>header.
     bindE (mapE (csv_line rt) dataRows) (\<lambda>lines.
       Inr (join_with [newline] (header # lines)))))"

section \<open>Application state and event handlers\<close>

record state =
  episodes :: "jsval list"
  filtered :: "jsval list"
  sort_field :: string
  sort_ascending :: bool
  filters_name :: string
  focusedRowIndex :: int

definition initial_state :: state where
  "initial_state =
     \<lparr>episodes = [], filtered = [], sort_field = ''rank'', sort_ascending = True,
      filters_name = [], focusedRowIndex = - 1\<rparr>"

text \<open>
  \<^verbatim>\<open>applyFiltersAndSort\<close>: the state it leaves and the exception that escapes it, if
  any. The focus is reset first; \<^verbatim>\<open>state.filtered\<close> is assigned only when filter and
  sort have both returned, and before the rendering.
\<close>

definition applyFiltersAndSort :: "runtime \<Rightarrow> state \<Rightarrow> state \<times> error option" where
  "applyFiltersAndSort rt s =
     (let s1 = s\<lparr>focusedRowIndex := - 1\<rparr> in
      case visible_sequence rt (episodes s) (filters_name s) (sort_field s) (sort_ascending s) of
        Inl e \<Rightarrow> (s1, Some e)
      | Inr processedData \<Rightarrow>
          (let s2 = s1\<lparr>filtered := processedData\<rparr> in
           case displayEpisodes rt processedData of
             Inl e \<Rightarrow> (s2, Some e)
           | Inr rows \<Rightarrow> (s2, None)))"

text \<open>The \<^verbatim>\<open>input\<close> listener of the filter box.\<close>

definition filter_input :: "runtime \<Rightarrow> string \<Rightarrow> state \<Rightarrow> state \<times> error option" where
  "filter_input rt text s = applyFiltersAndSort rt (s\<lparr>filters_name := text\<rparr>)"

text \<open>The \<^verbatim>\<open>click\<close> listener of the header whose \<^verbatim>\<open>data-sort\<close> is \<open>field\<close>.\<close>

definition header_click :: "runtime \<Rightarrow> string \<Rightarrow> state \<Rightarrow> state \<times> error option" where
  "header_click rt field s =
     applyFiltersAndSort rt
       (if sort_field s = field then s\<lparr>sort_ascending := \<not> sort_ascending s\<rparr>
        else s\<lparr>sort_field := field, sort_ascending := True\<rparr>)"

text \<open>
  What \<^verbatim>\<open>handleKeyboardNavigation\<close> reads of the event and the page: the key, and
  whether the focused element is a header cell, with its \<^verbatim>\<open>data-sort\<close> when it has a
  click listener.
\<close>

datatype active_element = SortableHeader string | PlainHeader | OtherElement

record key_event =
  key :: string
  activeElement :: active_element

text \<open>
  An exception of the simulated click is reported by the page and does not reach
  the handler, which goes on to the arrow keys.
\<close>

definition handleKeyboardNavigation :: "runtime \<Rightarrow> key_event \<Rightarrow> state \<Rightarrow> state \<times> error option" where
  "handleKeyboardNavigation rt e s =
     (let (s1, reported) =
            (if key e = ''Enter'' then
               (case activeElement e of
                  SortableHeader field \<Rightarrow> header_click rt field s
                | _ \<Rightarrow> (s, None))
             else (s, None))
      in if key e = ''ArrowDown'' \<or> key e = ''ArrowUp'' then
           (let direction = (if key e = ''ArrowDown'' then 1 else - 1);
                numRows = int (length (filtered s1))
            in if numRows = 0 then (s1, reported)
               else (s1\<lparr>focusedRowIndex :=
                          max 0 (min (numRows - 1) (focusedRowIndex s1 + direction))\<rparr>,
                     reported))
         else (s1, reported))"

text \<open>The \<^verbatim>\<open>click\<close> listener of the table row at \<open>index\<close>.\<close>

definition row_click :: "nat \<Rightarrow> state \<Rightarrow> state" where
  "row_click index s = s\<lparr>focusedRowIndex := int index\<rparr>"

section \<open>Loader\<close>

text \<open>What the script shows of itself on the page.\<close>

record ui =
  loading_visible :: bool
  table_visible :: bool
  error_visible :: bool
  error_text :: string
  warnings_visible :: bool
  warnings_text :: string

definition showLoading :: "bool \<Rightarrow> ui \<Rightarrow> ui" where
  "showLoading isLoading u =
     u\<lparr>loading_visible := isLoading, table_visible := \<not> isLoading,
       error_visible := (if isLoading then False else error_visible u)\<rparr>"

definition showError :: "string \<Rightarrow> ui \<Rightarrow> ui" where
  "showError details u =
     u\<lparr>error_text :=
         ''Error: Could not load episodes. Please check your network connection and try again.''
           @ [newline] @ ''Details: '' @ details,
       error_visible := True, table_visible := False, loading_visible := False\<rparr>"

text \<open>
  A response as the loader reads it; \<open>json\<close> is what \<^verbatim>\<open>res.json()\<close> settles to, the
  message of its rejection on the left. A fetch either rejects with a message or
  resolves with a response.
\<close>

record response =
  ok :: bool
  url :: string
  statusText :: string
  json :: "string + jsval"

datatype fetch_outcome = Rejected string | Resolved response

definition error_message :: "runtime \<Rightarrow> error \<Rightarrow> string" where
  "error_message rt e = (case e of TypeError \<Rightarrow> type_error_message rt | Failure m \<Rightarrow> m)"

text \<open>
  \<^verbatim>\<open>await Promise.all(promises)\<close>: the values in array order, or the rejection that
  settles first in time. The order in which the promises settle is the network's,
  so it is an input: \<open>order\<close> lists the indices of the promises as they settle
  (every index once, in a run of the page). The first index in it whose promise
  is rejected decides.
\<close>

definition promise_all :: "nat list \<Rightarrow> (error + 'a) list \<Rightarrow> error + 'a list" where
  "promise_all order results =
     (case find (\<lambda>i. i < length results \<and> isl (results ! i)) order of
        Some i \<Rightarrow> (case results ! i of Inl e \<Rightarrow> Inl e | Inr v \<Rightarrow> mapE (\<lambda>r. r) results)
      | None \<Rightarrow> mapE (\<lambda>r. r) results)"

text \<open>The settle orders of a load: of the fetches, and of the \<^verbatim>\<open>res.json()\<close> promises.\<close>

record schedule =
  fetch_order :: "nat list"
  json_order :: "nat list"

definition settle_fetch :: "fetch_outcome \<Rightarrow> error + response" where
  "settle_fetch out = (case out of Rejected m \<Rightarrow> Inl (Failure m) | Resolved r \<Rightarrow> Inr r)"

definition settle_json :: "response \<Rightarrow> error + jsval" where
  "settle_json r = (case json r of Inl m \<Rightarrow> Inl (Failure m) | Inr v \<Rightarrow> Inr v)"

text \<open>The loop over the responses: the error of the first one that is not ok.\<close>

definition check_responses :: "response list \<Rightarrow> error + unit" where
  "check_responses responses =
     (case find (\<lambda>r. \<not> ok r) responses of
        Some r \<Rightarrow>
          Inl (Failure (''Network fetch failure from '' @ url r @ '' ('' @ statusText r @ '')''))
      | None \<Rightarrow> Inr ())"

text \<open>\<^verbatim>\<open>jsonDataArray.flatMap(data => data.episodes)\<close>: an array result is spliced in, any other result is one element.\<close>

definition flatten_one :: "jsval \<Rightarrow> jsval list" where
  "flatten_one v = (case v of JArr xs \<Rightarrow> xs | _ \<Rightarrow> [v])"

definition all_episodes :: "jsval list \<Rightarrow> error + jsval list" where
  "all_episodes jsonDataArray =
     bindE (mapE (\<lambda>data. member data ''episodes'') jsonDataArray) (\<lambda>parts.
       Inr (concat (map flatten_one parts)))"

text \<open>
  The \<^verbatim>\<open>try\<close> block of \<^verbatim>\<open>loadEpisodes\<close> after \<^verbatim>\<open>showLoading(true)\<close>: the state and page it
  leaves, the number of \<^verbatim>\<open>res.json()\<close> calls it made, and the exception it ends with.
\<close>

definition load_try ::
  "runtime \<Rightarrow> int \<Rightarrow> schedule \<Rightarrow> fetch_outcome list \<Rightarrow> state \<Rightarrow> ui
     \<Rightarrow> (state \<times> ui \<times> nat) \<times> error option" where
  "load_try rt now sched outcomes s u =
     (case promise_all (fetch_order sched) (map settle_fetch outcomes) of
        Inl e \<Rightarrow> ((s, u, 0), Some e)
      | Inr responses \<Rightarrow>
     (case check_responses responses of
        Inl e \<Rightarrow> ((s, u, 0), Some e)
      | Inr _ \<Rightarrow>
     (case promise_all (json_order sched) (map settle_json responses) of
        Inl e \<Rightarrow> ((s, u, length responses), Some e)
      | Inr jsonDataArray \<Rightarrow>
     (case all_episodes jsonDataArray of
        Inl e \<Rightarrow> ((s, u, length responses), Some e)
      | Inr allEpisodes \<Rightarrow>
     (case validateData rt now allEpisodes of
        Inl e \<Rightarrow> ((s, u, length responses), Some e)
      | Inr warnings \<Rightarrow>
          (let u1 = (if warnings \<noteq> [] then
                       u\<lparr>warnings_text :=
                           ''Found '' @ number_to_string rt (of_nat (length warnings))
                             @ '' data quality warning(s). See console for details.'',
                         warnings_visible := True\<rparr>
                     else u);
               (s1, thrown) = applyFiltersAndSort rt (s\<lparr>episodes := allEpisodes\<rparr>)
           in ((s1, u1, length responses), thrown)))))))"

text \<open>
  \<^verbatim>\<open>loadEpisodes\<close>, with the time of the validation, the settle orders and the
  outcome of each fetch (in the order of \<^verbatim>\<open>CONFIG.DATA_URLS\<close>) as inputs: \<^verbatim>\<open>try\<close>,
  \<^verbatim>\<open>catch\<close> (\<^verbatim>\<open>showError\<close>) and \<^verbatim>\<open>finally\<close> (\<^verbatim>\<open>showLoading(false)\<close>).
\<close>

definition loadEpisodes ::
  "runtime \<Rightarrow> int \<Rightarrow> schedule \<Rightarrow> fetch_outcome list \<Rightarrow> state \<Rightarrow> ui \<Rightarrow> state \<times> ui \<times> nat" where
  "loadEpisodes rt now sched outcomes s u =
     (let ((s1, u1, json_calls), thrown) =
            load_try rt now sched outcomes s (showLoading True u);
          u2 = (case thrown of Some e \<Rightarrow> showError (error_message rt e) u1 | None \<Rightarrow> u1)
      in (s1, showLoading False u2, json_calls))"

section \<open>The page as a transition system\<close>

text \<open>
  The listeners \<^verbatim>\<open>setupEventListeners\<close> registers, the row listeners of
  \<^verbatim>\<open>displayEpisodes\<close>, and the load started at \<^verbatim>\<open>DOMContentLoaded\<close>. The script runs on
  one thread and a handler runs to its end, so a run of the page is a sequence of
  events. The load reads and writes the state only after its last \<^verbatim>\<open>await\<close>, so it
  is one event, placed where it completes. A row exists only for an index of the
  visible sequence. The export changes neither state nor page.
\<close>

datatype event =
    FilterInput string
  | HeaderClick string
  | KeyDown key_event
  | RowClick nat
  | ExportClick
  | Load int schedule "fetch_outcome list"

fun step :: "runtime \<Rightarrow> state \<times> ui \<Rightarrow> event \<Rightarrow> state \<times> ui" where
  "step rt (s, u) (FilterInput text) = (fst (filter_input rt text s), u)"
| "step rt (s, u) (HeaderClick field) = (fst (header_click rt field s), u)"
| "step rt (s, u) (KeyDown e) = (fst (handleKeyboardNavigation rt e s), u)"
| "step rt (s, u) (RowClick index) =
     (if index < length (filtered s) then row_click index s else s, u)"
| "step rt (s, u) ExportClick = (s, u)"
| "step rt (s, u) (Load now sched outcomes) =
     (case loadEpisodes rt now sched outcomes s u of (s1, u1, json_calls) \<Rightarrow> (s1, u1))"

definition run :: "runtime \<Rightarrow> ui \<Rightarrow> event list \<Rightarrow> state \<times> ui" where
  "run rt u events = foldl (step rt) (initial_state, u) events"

text \<open>The focus index is none (\<open>-1\<close>) or an index of the visible sequence.\<close>

definition focus_in_range :: "state \<Rightarrow> bool" where
  "focus_in_range s =
     (- 1 \<le> focusedRowIndex s \<and> focusedRowIndex s \<le> int (length (filtered s)) - 1)"

section \<open>Reference host\<close>

text \<open>
  A host for the worked examples: the UTC time zone, integers printed and strings
  of digits read as ECMAScript does, ISO dates parsed. Its conversions are meant
  for the inputs the examples use; on others (fractions, exponents, free-text
  dates) they are placeholders.
\<close>

fun decimal_digits :: "nat \<Rightarrow> string" where
  "decimal_digits n =
     (if n < 10 then [''0123456789'' ! n]
      else decimal_digits (n div 10) @ [''0123456789'' ! (n mod 10)])"

definition decimal_of_rat :: "rat \<Rightarrow> string" where
  "decimal_of_rat r =
     (let (n, d) = quotient_of r;
          body = decimal_digits (nat \<bar>n\<bar>)
                   @ (if d = 1 then [] else ''/'' @ decimal_digits (nat d))
      in if n < 0 then ''-'' @ body else body)"

definition digit_value :: "char \<Rightarrow> int option" where
  "digit_value c = map_of (zip ''0123456789'' [0, 1, 2, 3, 4, 5, 6, 7, 8, 9]) c"

definition decimal_value :: "string \<Rightarrow> jsnum" where
  "decimal_value s =
     (case fold (\<lambda>c acc. case (acc, digit_value c) of
                           (Some a, Some d) \<Rightarrow> Some (10 * a + d)
                         | _ \<Rightarrow> None) s (Some 0) of
        Some n \<Rightarrow> Fin (of_int n)
      | None \<Rightarrow> NaN)"

text \<open>The year of a day number, by the usual era arithmetic of the Gregorian calendar.\<close>

definition year_of_day :: "int \<Rightarrow> int" where
  "year_of_day d =
     (let z = d + 719468; era = z div 146097; doe = z mod 146097;
          yoe = (doe - doe div 1460 + doe div 36524 - doe div 146096) div 365;
          doy = doe - (365 * yoe + yoe div 4 - yoe div 100);
          mp = (5 * doy + 2) div 153
      in yoe + era * 400 + (if mp < 10 then 0 else 1))"

text \<open>The ISO form \<^verbatim>\<open>YYYY-MM-DD\<close>, which ECMAScript reads as midnight UTC.\<close>

definition iso_date :: "string \<Rightarrow> int option" where
  "iso_date s =
     (if length s = 10 \<and> s ! 4 = CHR ''-'' \<and> s ! 7 = CHR ''-'' then
        (case (decimal_value (take 4 s), decimal_value (take 2 (drop 5 s)),
               decimal_value (drop 8 s)) of
           (Fin y, Fin m, Fin d) \<Rightarrow>
             (if 1 \<le> m \<and> m \<le> 12 \<and> 1 \<le> d \<and> d \<le> 31
              then Some (make_day y (m - 1) d * ms_per_day) else None)
         | _ \<Rightarrow> None)
      else None)"

definition utc_host :: runtime where
  "utc_host =
     \<lparr>number_to_string = decimal_of_rat, string_to_number = decimal_value,
      date_parse = iso_date, local_to_utc = (\<lambda>t. t),
      local_year = (\<lambda>t. year_of_day (t div ms_per_day)),
      type_error_message = ''TypeError''\<rparr>"

section \<open>The filter, as a statement about texts\<close>

text \<open>
  The records the filter is meant for: an object (or any value other than
  \<^verbatim>\<open>null\<close>/\<^verbatim>\<open>undefined\<close>) whose title, writer and director are strings or absent,
  and whose doctor's and companion's actor is a string or falsy. On any other
  record \<^verbatim>\<open>toLowerCase\<close> is called on something that does not have it.
\<close>

fun is_string :: "jsval \<Rightarrow> bool" where
  "is_string (JStr s) = True"
| "is_string v = False"

definition text_or_absent :: "jsval \<Rightarrow> bool" where
  "text_or_absent v = (nullish v \<or> is_string v)"

definition actor_usable :: "jsval \<Rightarrow> bool" where
  "actor_usable d = (\<not> truthy (get_prop d ''actor'') \<or> is_string (get_prop d ''actor''))"

definition filterable :: "jsval \<Rightarrow> bool" where
  "filterable ep =
     (\<not> nullish ep \<and> text_or_absent (get_prop ep ''title'')
      \<and> actor_usable (get_prop ep ''doctor'') \<and> actor_usable (get_prop ep ''companion'')
      \<and> text_or_absent (get_prop ep ''writer'') \<and> text_or_absent (get_prop ep ''director''))"

text \<open>The lower-cased text of a field, the empty string when the field is absent.\<close>

definition lowered_text :: "jsval \<Rightarrow> string" where
  "lowered_text v = (case v of JStr s \<Rightarrow> toLowerCase s | _ \<Rightarrow> [])"

text \<open>The lower-cased actor of a doctor or companion, \<^verbatim>\<open>n/a\<close> when there is none.\<close>

definition lowered_actor :: "jsval \<Rightarrow> string" where
  "lowered_actor d =
     (if truthy (get_prop d ''actor'') then lowered_text (get_prop d ''actor'') else ''n/a'')"

text \<open>The five texts the filter searches.\<close>

definition searched_texts :: "jsval \<Rightarrow> string list" where
  "searched_texts ep =
     [lowered_text (get_prop ep ''title''), lowered_actor (get_prop ep ''doctor''),
      lowered_actor (get_prop ep ''companion''), lowered_text (get_prop ep ''writer''),
      lowered_text (get_prop ep ''director'')]"

text \<open>
  The five texts as the specification's sentence has them: every one of them,
  the doctor's and companion's too, the empty string when its field is absent.
\<close>

definition specified_texts :: "jsval \<Rightarrow> string list" where
  "specified_texts ep =
     [lowered_text (get_prop ep ''title''),
      lowered_text (get_prop (get_prop ep ''doctor'') ''actor''),
      lowered_text (get_prop (get_prop ep ''companion'') ''actor''),
      lowered_text (get_prop ep ''writer''),
      lowered_text (get_prop ep ''director'')]"

section \<open>The sort, as a statement about keys\<close>

text \<open>
  The order \<^verbatim>\<open><\<close> puts on two keys of one kind: strings by code units, numbers by
  value. Keys of different kinds, and \<^verbatim>\<open>NaN\<close>, are not ordered by it.
\<close>

definition key_lt :: "jsval \<Rightarrow> jsval \<Rightarrow> bool" where
  "key_lt a b =
     (case (a, b) of
        (JStr s, JStr t) \<Rightarrow> s < t
      | (JNum x, JNum y) \<Rightarrow> num_lt x y
      | _ \<Rightarrow> False)"

fun is_ordered_number :: "jsval \<Rightarrow> bool" where
  "is_ordered_number (JNum n) = (n \<noteq> NaN)"
| "is_ordered_number v = False"

text \<open>The key of a record, when its extraction does not throw.\<close>

definition sort_key :: "runtime \<Rightarrow> string \<Rightarrow> jsval \<Rightarrow> jsval" where
  "sort_key rt field ep = (case getSortValue rt ep field of Inr k \<Rightarrow> k | Inl e \<Rightarrow> JUndefined)"

definition has_key :: "runtime \<Rightarrow> string \<Rightarrow> (jsval \<Rightarrow> bool) \<Rightarrow> jsval \<Rightarrow> bool" where
  "has_key rt field kind ep = (case getSortValue rt ep field of Inr k \<Rightarrow> kind k | Inl e \<Rightarrow> False)"

text \<open>
  The extraction gives every record a string, or gives every record a number
  other than \<^verbatim>\<open>NaN\<close>: then the comparator is consistent, and the order of the sorted
  array is the one ECMAScript prescribes.
\<close>

definition keys_ordered :: "runtime \<Rightarrow> string \<Rightarrow> jsval list \<Rightarrow> bool" where
  "keys_ordered rt field xs =
     (list_all (has_key rt field is_string) xs \<or> list_all (has_key rt field is_ordered_number) xs)"

text \<open>In the order of the direction: no later record's key comes before an earlier one's.\<close>

definition in_direction :: "runtime \<Rightarrow> string \<Rightarrow> bool \<Rightarrow> jsval \<Rightarrow> jsval \<Rightarrow> bool" where
  "in_direction rt field ascending a b =
     (if ascending then \<not> key_lt (sort_key rt field b) (sort_key rt field a)
      else \<not> key_lt (sort_key rt field a) (sort_key rt field b))"

text \<open>Two keys of one kind: two strings, or two numbers neither of which is \<^verbatim>\<open>NaN\<close>.\<close>

definition same_kind :: "jsval \<Rightarrow> jsval \<Rightarrow> bool" where
  "same_kind a b = ((is_string a \<and> is_string b) \<or> (is_ordered_number a \<and> is_ordered_number b))"

text \<open>
  The visible sequence is the one the current data, filter text and sort state
  give: what holds after every \<^verbatim>\<open>applyFiltersAndSort\<close> that did not throw.
\<close>

definition view_current :: "runtime \<Rightarrow> state \<Rightarrow> bool" where
  "view_current rt s =
     (visible_sequence rt (episodes s) (filters_name s) (sort_field s) (sort_ascending s)
        = Inr (filtered s))"

section \<open>The validator, as a statement about the records\<close>

text \<open>
  The records the validator goes through without an exception: values other than
  \<^verbatim>\<open>null\<close>/\<^verbatim>\<open>undefined\<close> whose title and broadcast date are strings or falsy.
\<close>

definition string_or_falsy :: "jsval \<Rightarrow> bool" where
  "string_or_falsy v = (\<not> truthy v \<or> is_string v)"

definition validatable :: "jsval \<Rightarrow> bool" where
  "validatable ep =
     (\<not> nullish ep \<and> string_or_falsy (get_prop ep ''title'')
      \<and> string_or_falsy (get_prop ep ''broadcast_date''))"

definition has_rank :: "rat \<Rightarrow> jsval \<Rightarrow> bool" where
  "has_rank r ep = (get_prop ep ''rank'' = JNum (Fin r))"

text \<open>
  Rule 3 in terms of the records that came earlier in the pass: a finite rank that
  one of them has is a duplicate.
\<close>

definition rank_warnings :: "runtime \<Rightarrow> jsval list \<Rightarrow> jsval \<Rightarrow> string \<Rightarrow> string list" where
  "rank_warnings rt earlier rank ident =
     (case rank of
        JNum (Fin r) \<Rightarrow>
          (if list_ex (has_rank r) earlier then [duplicate_rank_warning rt r ident] else [])
      | _ \<Rightarrow> [invalid_rank_warning ident])"





text \<open>The details the loader reports for a response that is not ok.\<close>

definition fetch_failure_message :: "response \<Rightarrow> string" where
  "fetch_failure_message r =
     ''Network fetch failure from '' @ url r @ '' ('' @ statusText r @ '')''"

fun is_rejected :: "fetch_outcome \<Rightarrow> bool" where
  "is_rejected (Rejected m) = True"
| "is_rejected (Resolved r) = False"

text \<open>The index of the rejected fetch that settles first, if a fetch is rejected.\<close>

definition first_rejected :: "nat list \<Rightarrow> fetch_outcome list \<Rightarrow> nat option" where
  "first_rejected order outcomes =
     find (\<lambda>i. i < length outcomes \<and> is_rejected (outcomes ! i)) order"

section \<open>The data model\<close>

text \<open>
  The episode record as the data is meant to be: an object whose \<^verbatim>\<open>rank\<close> and
  \<^verbatim>\<open>series\<close> are numbers, whose \<^verbatim>\<open>title\<close>, \<^verbatim>\<open>era\<close>, \<^verbatim>\<open>broadcast_date\<close>, \<^verbatim>\<open>director\<close> and
  \<^verbatim>\<open>writer\<close> are strings, whose \<^verbatim>\<open>doctor\<close> and \<^verbatim>\<open>companion\<close> are objects with string
  members, and whose \<^verbatim>\<open>cast\<close> is an array; any field may be absent or \<^verbatim>\<open>null\<close>. The
  script checks none of this; the statements below that need a record to be of a
  certain shape ask for less, and every record of this shape has it.
\<close>

fun is_number :: "jsval \<Rightarrow> bool" where
  "is_number (JNum n) = True"
| "is_number v = False"

fun is_array :: "jsval \<Rightarrow> bool" where
  "is_array (JArr xs) = True"
| "is_array v = False"

fun is_object :: "jsval \<Rightarrow> bool" where
  "is_object (JObj kvs) = True"
| "is_object v = False"

definition optional :: "(jsval \<Rightarrow> bool) \<Rightarrow> jsval \<Rightarrow> bool" where
  "optional kind v = (nullish v \<or> kind v)"

definition person_conforms :: "string \<Rightarrow> jsval \<Rightarrow> bool" where
  "person_conforms secondary v =
     (is_object v \<and> optional is_string (get_prop v ''actor'')
      \<and> optional is_string (get_prop v secondary))"

definition conforms :: "jsval \<Rightarrow> bool" where
  "conforms ep =
     (is_object ep
      \<and> optional is_number (get_prop ep ''rank'')
      \<and> optional is_string (get_prop ep ''title'')
      \<and> optional is_number (get_prop ep ''series'')
      \<and> optional is_string (get_prop ep ''era'')
      \<and> optional is_string (get_prop ep ''broadcast_date'')
      \<and> optional is_string (get_prop ep ''director'')
      \<and> optional is_string (get_prop ep ''writer'')
      \<and> optional (person_conforms ''incarnation'') (get_prop ep ''doctor'')
      \<and> optional (person_conforms ''character'') (get_prop ep ''companion'')
      \<and> optional is_array (get_prop ep ''cast''))"

text \<open>The fields the table can be sorted by: the ten columns.\<close>

definition columns :: "string list" where
  "columns = [''rank'', ''title'', ''series'', ''era'', ''broadcast_date'', ''director'',
              ''writer'', ''doctor'', ''companion'', ''cast_count'']"

section \<open>Sample data\<close>

definition sample_page :: ui where
  "sample_page =
     \<lparr>loading_visible = False, table_visible = True, error_visible = False, error_text = [],
      warnings_visible = False, warnings_text = []\<rparr>"

text \<open>Five records on display, the first one focused.\<close>

definition five_rows :: state where
  "five_rows =
     \<lparr>episodes = map (\<lambda>n. JObj [(''rank'', JNum (Fin (of_nat n)))]) [1 ..< 6],
      filtered = map (\<lambda>n. JObj [(''rank'', JNum (Fin (of_nat n)))]) [1 ..< 6],
      sort_field = ''rank'', sort_ascending = True, filters_name = [],
      focusedRowIndex = 0\<rparr>"

text \<open>
  A doctor whose actor is the empty string, one with no actor, and the same for a
  companion (the second one \<^verbatim>\<open>null\<close>).
\<close>

definition doctor_empty_actor :: jsval where
  "doctor_empty_actor = JObj [(''actor'', JStr []), (''incarnation'', JStr ''Fourth Doctor'')]"

definition doctor_no_actor :: jsval where
  "doctor_no_actor = JObj [(''incarnation'', JStr ''Fourth Doctor'')]"

definition companion_empty_actor :: jsval where
  "companion_empty_actor = JObj [(''actor'', JStr []), (''character'', JStr ''Sarah Jane Smith'')]"

text \<open>Three episodes, two of them with the same doctor.\<close>

definition ep_robot :: jsval where
  "ep_robot =
     JObj [(''rank'', JNum (Fin 2)), (''title'', JStr ''Robot''),
           (''doctor'', JObj [(''actor'', JStr ''Tom Baker'')])]"

definition ep_rose :: jsval where
  "ep_rose =
     JObj [(''rank'', JNum (Fin 1)), (''title'', JStr ''Rose''),
           (''doctor'', JObj [(''actor'', JStr ''Christopher Eccleston'')])]"

definition ep_ark :: jsval where
  "ep_ark =
     JObj [(''rank'', JNum (Fin 3)), (''title'', JStr ''The Ark in Space''),
           (''doctor'', JObj [(''actor'', JStr ''Tom Baker'')])]"

text \<open>The three episodes on display, sorted by rank.\<close>

definition sorted_by_rank :: state where
  "sorted_by_rank =
     \<lparr>episodes = [ep_robot, ep_rose, ep_ark], filtered = [ep_rose, ep_robot, ep_ark],
      sort_field = ''rank'', sort_ascending = True, filters_name = [],
      focusedRowIndex = - 1\<rparr>"



text \<open>A response with status 404, and a page that mixes it with a fetch that fails.\<close>

definition not_found :: response where
  "not_found =
     \<lparr>ok = False, url = ''https://example.org/episodes-01.json'', statusText = ''Not Found'',
      json = Inl ''Unexpected token''\<rparr>"

declare decimal_digits.simps [simp del]

section \<open>Basic facts\<close>

lemma bindE_Inr [simp]: "bindE (Inr v) f = f v"
  by (simp add: bindE_def)

lemma bindE_Inl [simp]: "bindE (Inl e) f = Inl e"
  by (simp add: bindE_def)

section \<open>Formatters on a missing actor\<close>

lemma formatDoctor_falsy_actor:
  "\<not> truthy (get_prop d ''actor'') \<Longrightarrow> formatDoctor rt d inc = Inr (JStr ''N/A'')"
  by (simp add: formatDoctor_def)

lemma formatCompanion_falsy_actor:
  "\<not> truthy (get_prop c ''actor'') \<Longrightarrow> formatCompanion rt c inc = Inr (JStr ''N/A'')"
  by (simp add: formatCompanion_def)

section \<open>State after each handler\<close>

lemma apply_focus: "focusedRowIndex (fst (applyFiltersAndSort rt s)) = - 1"
  by (simp add: applyFiltersAndSort_def Let_def split: sum.splits)

lemma apply_sort_state:
  "sort_field (fst (applyFiltersAndSort rt s)) = sort_field s"
  "sort_ascending (fst (applyFiltersAndSort rt s)) = sort_ascending s"
  "episodes (fst (applyFiltersAndSort rt s)) = episodes s"
  "filters_name (fst (applyFiltersAndSort rt s)) = filters_name s"
  by (simp_all add: applyFiltersAndSort_def Let_def split: sum.splits)

lemma apply_filtered:
  "filtered (fst (applyFiltersAndSort rt s)) =
     (case visible_sequence rt (episodes s) (filters_name s) (sort_field s) (sort_ascending s) of
        Inl e \<Rightarrow> filtered s | Inr v \<Rightarrow> v)"
  by (simp add: applyFiltersAndSort_def Let_def split: sum.splits)

lemma focus_reset_in_range:
  "focusedRowIndex s = - 1 \<Longrightarrow> focus_in_range s"
  by (simp add: focus_in_range_def)

lemma apply_in_range: "focus_in_range (fst (applyFiltersAndSort rt s))"
  by (rule focus_reset_in_range) (rule apply_focus)

lemma header_click_focus: "focusedRowIndex (fst (header_click rt field s)) = - 1"
  by (simp add: header_click_def apply_focus)

lemma filter_input_focus: "focusedRowIndex (fst (filter_input rt text s)) = - 1"
  by (simp add: filter_input_def apply_focus)

lemma arrow_key:
  assumes "key e = ''ArrowDown'' \<or> key e = ''ArrowUp''"
  shows "handleKeyboardNavigation rt e s =
     (if filtered s = [] then (s, None)
      else (s\<lparr>focusedRowIndex :=
                 max 0 (min (int (length (filtered s)) - 1)
                   (focusedRowIndex s + (if key e = ''ArrowDown'' then 1 else - 1)))\<rparr>, None))"
  using assms by (auto simp: handleKeyboardNavigation_def Let_def)

lemma other_key:
  assumes "key e \<noteq> ''ArrowDown''" "key e \<noteq> ''ArrowUp''"
  shows "handleKeyboardNavigation rt e s =
     (if key e = ''Enter'' then
        (case activeElement e of SortableHeader field \<Rightarrow> header_click rt field s | _ \<Rightarrow> (s, None))
      else (s, None))"
  using assms by (auto simp: handleKeyboardNavigation_def Let_def split: active_element.splits prod.splits)

lemma keyboard_in_range:
  assumes "focus_in_range s"
  shows "focus_in_range (fst (handleKeyboardNavigation rt e s))"
proof (cases "key e = ''ArrowDown'' \<or> key e = ''ArrowUp''")
  case True
  then show ?thesis
    using assms by (auto simp: arrow_key focus_in_range_def)
next
  case False
  then show ?thesis
    using assms
    by (auto simp: other_key focus_reset_in_range header_click_focus split: active_element.splits)
qed

lemma row_click_in_range:
  "index < length (filtered s) \<Longrightarrow> focus_in_range (row_click index s)"
  by (simp add: row_click_def focus_in_range_def)

lemma load_try_state:
  "fst (fst (load_try rt now sched outcomes s u)) = s \<or>
   (\<exists>eps. fst (fst (load_try rt now sched outcomes s u))
            = fst (applyFiltersAndSort rt (s\<lparr>episodes := eps\<rparr>)))"
  by (auto simp: load_try_def Let_def split: sum.splits prod.splits) (metis fst_conv)+

lemma load_in_range:
  assumes "focus_in_range s"
  shows "focus_in_range (fst (loadEpisodes rt now sched outcomes s u))"
proof -
  have "fst (loadEpisodes rt now sched outcomes s u)
      = fst (fst (load_try rt now sched outcomes s (showLoading True u)))"
    by (simp add: loadEpisodes_def Let_def split: prod.splits)
  with load_try_state [of rt now sched outcomes s "showLoading True u"] assms show ?thesis
    by (auto simp: apply_in_range)
qed

lemma step_in_range:
  assumes "focus_in_range (fst c)"
  shows "focus_in_range (fst (step rt c e))"
proof (cases c)
  case (Pair s u)
  with assms have s: "focus_in_range s" by simp
  show ?thesis
  proof (cases e)
    case (FilterInput name)
    with Pair show ?thesis by (simp add: focus_reset_in_range filter_input_focus)
  next
    case (HeaderClick field)
    with Pair show ?thesis by (simp add: focus_reset_in_range header_click_focus)
  next
    case (KeyDown k)
    with Pair s show ?thesis by (simp add: keyboard_in_range)
  next
    case (RowClick index)
    with Pair s show ?thesis by (simp add: row_click_in_range)
  next
    case ExportClick
    with Pair s show ?thesis by simp
  next
    case (Load now sched outcomes)
    with Pair load_in_range [OF s, of rt now sched outcomes u] show ?thesis
      by (auto split: prod.splits)
  qed
qed

lemma foldl_step_in_range:
  "focus_in_range (fst c) \<Longrightarrow> focus_in_range (fst (foldl (step rt) c events))"
  by (induction events arbitrary: c) (simp_all add: step_in_range)

lemma run_in_range: "focus_in_range (fst (run rt u events))"
  unfolding run_def
  by (rule foldl_step_in_range) (simp add: focus_in_range_def initial_state_def)

section \<open>The filter on well-formed records\<close>

lemma str_includes_iff: "str_includes s t \<longleftrightarrow> (\<exists>p q. s = p @ t @ q)"
  by (simp add: str_includes_def sublist_def)

lemma str_includes_empty: "str_includes s []"
  by (simp add: str_includes_def)

lemma lower_or_empty_text:
  "text_or_absent v \<Longrightarrow> lower_or_empty v = Inr (lowered_text v)"
  by (cases v) (auto simp: text_or_absent_def lower_or_empty_def lowered_text_def)

lemma lower_na: "toLowerCase ''N/A'' = ''n/a''"
  by (simp add: toLowerCase_def lower_char_def)

lemma formatDoctor_actor_only:
  "formatDoctor rt d False = Inr (if truthy (get_prop d ''actor'') then get_prop d ''actor'' else JStr ''N/A'')"
  by (simp add: formatDoctor_def)

lemma formatCompanion_actor_only:
  "formatCompanion rt c False = Inr (if truthy (get_prop c ''actor'') then get_prop c ''actor'' else JStr ''N/A'')"
  by (simp add: formatCompanion_def)

lemma lower_actor_text:
  "actor_usable d \<Longrightarrow>
     call_toLowerCase (if truthy (get_prop d ''actor'') then get_prop d ''actor'' else JStr ''N/A'')
       = Inr (lowered_actor d)"
  by (cases "get_prop d ''actor''")
     (auto simp: actor_usable_def lowered_actor_def lowered_text_def lower_na)

lemma matches_filter_filterable:
  assumes "filterable ep"
  shows "matches_filter rt ft ep = Inr (list_ex (\<lambda>t. str_includes t ft) (searched_texts ep))"
  using assms
  by (simp add: filterable_def matches_filter_def member_def lower_or_empty_text
        formatDoctor_actor_only formatCompanion_actor_only lower_actor_text searched_texts_def)

lemma array_filter_total:
  assumes "\<And>x. x \<in> set xs \<Longrightarrow> p x = Inr (q x)"
  shows "array_filter p xs = Inr (filter q xs)"
  using assms by (induction xs) auto

section \<open>The sort: permutation, stability, order\<close>

lemma insert_sorted_mset:
  "insert_sorted cmp x ys = Inr zs \<Longrightarrow> mset zs = add_mset x (mset ys)"
  by (induction ys arbitrary: zs) (auto split: sum.splits if_splits)

lemma array_sort_mset: "array_sort cmp xs = Inr ys \<Longrightarrow> mset ys = mset xs"
  by (induction xs arbitrary: ys) (auto split: sum.splits dest: insert_sorted_mset)

lemma array_sort_set: "array_sort cmp xs = Inr ys \<Longrightarrow> set ys = set xs"
  by (metis array_sort_mset set_mset_mset)

lemma insert_sorted_filter:
  assumes "insert_sorted cmp x ys = Inr zs"
    and "\<And>y c. y \<in> set ys \<Longrightarrow> P x \<Longrightarrow> P y \<Longrightarrow> cmp x y = Inr c \<Longrightarrow> c \<le> 0"
  shows "filter P zs = (if P x then x # filter P ys else filter P ys)"
  using assms
proof (induction ys arbitrary: zs)
  case Nil
  then show ?case by auto
next
  case (Cons y ys)
  from Cons.prems(1) obtain c where c: "cmp x y = Inr c"
    by (auto split: sum.splits)
  show ?case
  proof (cases "c \<le> 0")
    case True
    with c Cons.prems(1) show ?thesis by auto
  next
    case False
    with c Cons.prems(1) obtain r where r: "insert_sorted cmp x ys = Inr r" "zs = y # r"
      by (auto split: sum.splits)
    from Cons.prems(2) have "\<And>y c. y \<in> set ys \<Longrightarrow> P x \<Longrightarrow> P y \<Longrightarrow> cmp x y = Inr c \<Longrightarrow> c \<le> 0"
      by auto
    with Cons.IH r(1) have ih: "filter P r = (if P x then x # filter P ys else filter P ys)"
      by blast
    from Cons.prems(2) [of y c] c False have "\<not> (P x \<and> P y)" by auto
    with ih r(2) show ?thesis by auto
  qed
qed

lemma array_sort_stable:
  assumes "array_sort cmp xs = Inr ys"
    and "\<And>x y c. x \<in> set xs \<Longrightarrow> y \<in> set xs \<Longrightarrow> P x \<Longrightarrow> P y \<Longrightarrow> cmp x y = Inr c \<Longrightarrow> c \<le> 0"
  shows "filter P ys = filter P xs"
  using assms
proof (induction xs arbitrary: ys)
  case Nil
  then show ?case by simp
next
  case (Cons x xs)
  from Cons.prems(1) obtain s where s: "array_sort cmp xs = Inr s" "insert_sorted cmp x s = Inr ys"
    by (auto split: sum.splits)
  have set: "set s = set xs" using s(1) by (rule array_sort_set)
  have "filter P s = filter P xs"
    using Cons.IH [OF s(1)] Cons.prems(2) by auto
  moreover have "filter P ys = (if P x then x # filter P s else filter P s)"
    using s(2)
  proof (rule insert_sorted_filter)
    fix y c assume "y \<in> set s" "P x" "P y" "cmp x y = Inr c"
    with set Cons.prems(2) [of x y c] show "c \<le> 0" by auto
  qed
  ultimately show ?case by simp
qed

lemma insert_sorted_sorted:
  assumes "sorted_wrt le ys"
    and "\<And>y. y \<in> set ys \<Longrightarrow> \<exists>c. cmp x y = Inr c \<and> (c \<le> 0 \<longleftrightarrow> le x y)"
    and "\<And>y. y \<in> set ys \<Longrightarrow> \<not> le x y \<Longrightarrow> le y x"
    and "\<And>y z. y \<in> set ys \<Longrightarrow> z \<in> set ys \<Longrightarrow> le x y \<Longrightarrow> le y z \<Longrightarrow> le x z"
  shows "\<exists>zs. insert_sorted cmp x ys = Inr zs \<and> sorted_wrt le zs"
  using assms
proof (induction ys)
  case Nil
  then show ?case by simp
next
  case (Cons y ys)
  from Cons.prems(2) [of y] obtain c where c: "cmp x y = Inr c" "c \<le> 0 \<longleftrightarrow> le x y"
    by auto
  show ?case
  proof (cases "c \<le> 0")
    case True
    with c have xy: "le x y" by simp
    have "le x z" if "z \<in> set ys" for z
      using Cons.prems(4) [of y z] xy that Cons.prems(1) by auto
    with xy c True Cons.prems(1) show ?thesis by auto
  next
    case False
    with c have "\<not> le x y" by simp
    with Cons.prems(3) [of y] have yx: "le y x" by simp
    have "\<exists>zs. insert_sorted cmp x ys = Inr zs \<and> sorted_wrt le zs"
    proof (rule Cons.IH)
      show "sorted_wrt le ys" using Cons.prems(1) by simp
    next
      fix z assume "z \<in> set ys"
      then show "\<exists>c. cmp x z = Inr c \<and> (c \<le> 0) = le x z" using Cons.prems(2) by simp
    next
      fix z assume "z \<in> set ys" "\<not> le x z"
      then show "le z x" using Cons.prems(3) by simp
    next
      fix u z assume "u \<in> set ys" "z \<in> set ys" "le x u" "le u z"
      then show "le x z" using Cons.prems(4) [of u z] by simp
    qed
    then obtain r where r: "insert_sorted cmp x ys = Inr r" "sorted_wrt le r" by blast
    have "set r = insert x (set ys)"
      using insert_sorted_mset [OF r(1)] by (metis set_mset_add_mset_insert set_mset_mset)
    with yx Cons.prems(1) have "\<forall>z\<in>set r. le y z" by auto
    with r c False show ?thesis by auto
  qed
qed

lemma array_sort_sorted:
  assumes "\<And>x y. x \<in> set xs \<Longrightarrow> y \<in> set xs \<Longrightarrow> \<exists>c. cmp x y = Inr c \<and> (c \<le> 0 \<longleftrightarrow> le x y)"
    and "\<And>x y. x \<in> set xs \<Longrightarrow> y \<in> set xs \<Longrightarrow> \<not> le x y \<Longrightarrow> le y x"
    and "\<And>x y z. x \<in> set xs \<Longrightarrow> y \<in> set xs \<Longrightarrow> z \<in> set xs \<Longrightarrow> le x y \<Longrightarrow> le y z \<Longrightarrow> le x z"
  shows "\<exists>ys. array_sort cmp xs = Inr ys \<and> sorted_wrt le ys"
  using assms
proof (induction xs)
  case Nil
  show ?case by simp
next
  case (Cons x xs)
  have "\<exists>ys. array_sort cmp xs = Inr ys \<and> sorted_wrt le ys"
  proof (rule Cons.IH)
    fix a b assume "a \<in> set xs" "b \<in> set xs"
    then have "a \<in> set (x # xs)" "b \<in> set (x # xs)" by simp_all
    then show "\<exists>c. cmp a b = Inr c \<and> (c \<le> 0) = le a b" by (rule Cons.prems(1))
  next
    fix a b assume "a \<in> set xs" "b \<in> set xs" and n: "\<not> le a b"
    then have "a \<in> set (x # xs)" "b \<in> set (x # xs)" by simp_all
    then show "le b a" using n by (rule Cons.prems(2))
  next
    fix a b c assume "a \<in> set xs" "b \<in> set xs" "c \<in> set xs" and l: "le a b" "le b c"
    then have "a \<in> set (x # xs)" "b \<in> set (x # xs)" "c \<in> set (x # xs)" by simp_all
    then show "le a c" using l by (rule Cons.prems(3))
  qed
  then obtain s where s: "array_sort cmp xs = Inr s" "sorted_wrt le s" by blast
  have set: "set s = set xs" using s(1) by (rule array_sort_set)
  have x: "x \<in> set (x # xs)" by simp
  have "\<exists>zs. insert_sorted cmp x s = Inr zs \<and> sorted_wrt le zs"
  proof (rule insert_sorted_sorted [OF s(2)])
    fix y assume "y \<in> set s"
    with set have "y \<in> set (x # xs)" by simp
    with x show "\<exists>c. cmp x y = Inr c \<and> (c \<le> 0) = le x y" by (rule Cons.prems(1))
  next
    fix y assume "y \<in> set s" and n: "\<not> le x y"
    with set have "y \<in> set (x # xs)" by simp
    with x show "le y x" using n by (rule Cons.prems(2))
  next
    fix y z assume "y \<in> set s" "z \<in> set s" and l: "le x y" "le y z"
    with set have "y \<in> set (x # xs)" "z \<in> set (x # xs)" by simp_all
    with x show "le x z" using l by (rule Cons.prems(3))
  qed
  then obtain zs where "insert_sorted cmp x s = Inr zs" "sorted_wrt le zs" by blast
  with s(1) show ?case by (simp del: sorted_wrt.simps)
qed

lemma num_lt_irrefl: "\<not> num_lt n n"
  by (cases n) auto

lemma num_lt_asym: "num_lt a b \<Longrightarrow> \<not> num_lt b a"
  by (cases a; cases b) auto

lemma num_lt_total: "a \<noteq> NaN \<Longrightarrow> b \<noteq> NaN \<Longrightarrow> \<not> num_lt a b \<Longrightarrow> \<not> num_lt b a \<Longrightarrow> a = b"
  by (cases a; cases b) auto

lemma num_le_trans:
  "b \<noteq> NaN \<Longrightarrow> \<not> num_lt b a \<Longrightarrow> \<not> num_lt c b \<Longrightarrow> \<not> num_lt c a"
  by (cases a; cases b; cases c) auto

lemma key_lt_irrefl: "\<not> key_lt k k"
  by (cases k) (auto simp: key_lt_def num_lt_irrefl)

lemma key_lt_asym: "key_lt a b \<Longrightarrow> \<not> key_lt b a"
  by (cases a; cases b) (auto simp: key_lt_def num_lt_asym)

lemma key_le_trans_strings:
  "is_string a \<Longrightarrow> is_string b \<Longrightarrow> is_string c \<Longrightarrow>
     \<not> key_lt b a \<Longrightarrow> \<not> key_lt c b \<Longrightarrow> \<not> key_lt c a"
  by (cases a; cases b; cases c) (auto simp: key_lt_def)

lemma key_le_trans_numbers:
  "is_ordered_number a \<Longrightarrow> is_ordered_number b \<Longrightarrow> is_ordered_number c \<Longrightarrow>
     \<not> key_lt b a \<Longrightarrow> \<not> key_lt c b \<Longrightarrow> \<not> key_lt c a"
  by (cases a; cases b; cases c) (auto simp: key_lt_def dest: num_le_trans)

lemma key_lt_total_strings:
  "is_string a \<Longrightarrow> is_string b \<Longrightarrow> \<not> key_lt a b \<Longrightarrow> \<not> key_lt b a \<Longrightarrow> a = b"
  by (cases a; cases b) (auto simp: key_lt_def)

lemma key_lt_total_numbers:
  "is_ordered_number a \<Longrightarrow> is_ordered_number b \<Longrightarrow> \<not> key_lt a b \<Longrightarrow> \<not> key_lt b a \<Longrightarrow> a = b"
  by (cases a; cases b) (auto simp: key_lt_def dest: num_lt_total)

lemma js_lt_strings: "is_string a \<Longrightarrow> is_string b \<Longrightarrow> js_lt rt a b = Inr (key_lt a b)"
  by (cases a; cases b) (auto simp: js_lt_def to_primitive_def key_lt_def)

lemma js_lt_numbers: "is_ordered_number a \<Longrightarrow> is_ordered_number b \<Longrightarrow> js_lt rt a b = Inr (key_lt a b)"
  by (cases a; cases b) (auto simp: js_lt_def to_primitive_def key_lt_def)

lemma js_lt_same_kind: "same_kind a b \<Longrightarrow> js_lt rt a b = Inr (key_lt a b)"
  by (auto simp: same_kind_def js_lt_strings js_lt_numbers)

lemma compare_by_keys:
  assumes "getSortValue rt a field = Inr ka" "getSortValue rt b field = Inr kb" "same_kind ka kb"
  shows "compare_episodes rt field ascending a b =
           Inr ((if key_lt ka kb then - 1 else if key_lt kb ka then 1 else 0)
                  * (if ascending then 1 else - 1))"
proof -
  have "same_kind kb ka" using assms(3) by (auto simp: same_kind_def)
  with assms show ?thesis
    by (simp add: compare_episodes_def js_lt_same_kind Let_def)
qed

lemma has_key_elim:
  assumes "has_key rt field kind ep"
  obtains k where "getSortValue rt ep field = Inr k" "kind k" "sort_key rt field ep = k"
  using assms by (auto simp: has_key_def sort_key_def split: sum.splits)

lemma keys_ordered_same_kind:
  assumes "keys_ordered rt field xs" "a \<in> set xs" "b \<in> set xs"
  shows "\<exists>ka kb. getSortValue rt a field = Inr ka \<and> getSortValue rt b field = Inr kb
           \<and> sort_key rt field a = ka \<and> sort_key rt field b = kb \<and> same_kind ka kb"
proof -
  from assms(1) consider "list_all (has_key rt field is_string) xs"
    | "list_all (has_key rt field is_ordered_number) xs"
    by (auto simp: keys_ordered_def)
  then show ?thesis
  proof cases
    case 1
    with assms(2,3) have "has_key rt field is_string a" "has_key rt field is_string b"
      by (simp_all add: list_all_iff)
    then show ?thesis
      by (elim has_key_elim) (simp add: same_kind_def)
  next
    case 2
    with assms(2,3) have "has_key rt field is_ordered_number a" "has_key rt field is_ordered_number b"
      by (simp_all add: list_all_iff)
    then show ?thesis
      by (elim has_key_elim) (simp add: same_kind_def)
  qed
qed

lemma compare_in_direction:
  assumes "keys_ordered rt field xs" "a \<in> set xs" "b \<in> set xs"
  shows "\<exists>c. compare_episodes rt field ascending a b = Inr c
              \<and> (c \<le> 0 \<longleftrightarrow> in_direction rt field ascending a b)"
proof -
  from keys_ordered_same_kind [OF assms] obtain ka kb where
    k: "getSortValue rt a field = Inr ka" "getSortValue rt b field = Inr kb"
       "sort_key rt field a = ka" "sort_key rt field b = kb" "same_kind ka kb"
    by blast
  from compare_by_keys [OF k(1,2,5)] k(3,4) key_lt_asym [of ka kb] show ?thesis
    by (auto simp: in_direction_def)
qed

lemma in_direction_total:
  "\<not> in_direction rt field ascending a b \<Longrightarrow> in_direction rt field ascending b a"
  by (auto simp: in_direction_def dest: key_lt_asym)

lemma same_kind_trans:
  "same_kind a b \<Longrightarrow> same_kind b c \<Longrightarrow>
     \<not> key_lt b a \<Longrightarrow> \<not> key_lt c b \<Longrightarrow> \<not> key_lt c a"
  unfolding same_kind_def
  by (cases a; cases b; cases c) (auto simp: key_lt_def dest: num_le_trans)

lemma in_direction_trans:
  assumes "keys_ordered rt field xs" "a \<in> set xs" "b \<in> set xs" "c \<in> set xs"
    and "in_direction rt field ascending a b" "in_direction rt field ascending b c"
  shows "in_direction rt field ascending a c"
proof -
  from keys_ordered_same_kind [OF assms(1,2,3)] keys_ordered_same_kind [OF assms(1,3,4)]
  have "same_kind (sort_key rt field a) (sort_key rt field b)"
       "same_kind (sort_key rt field b) (sort_key rt field c)"
    by auto
  then have "same_kind (sort_key rt field c) (sort_key rt field b)"
       "same_kind (sort_key rt field b) (sort_key rt field a)"
    by (auto simp: same_kind_def)
  with \<open>same_kind (sort_key rt field a) (sort_key rt field b)\<close>
       \<open>same_kind (sort_key rt field b) (sort_key rt field c)\<close> assms(5,6)
  show ?thesis
    by (auto simp: in_direction_def dest: same_kind_trans)
qed

lemma sort_by_keys:
  assumes "keys_ordered rt field xs"
  shows "\<exists>ys. array_sort (compare_episodes rt field ascending) xs = Inr ys
           \<and> sorted_wrt (in_direction rt field ascending) ys"
proof (rule array_sort_sorted)
  fix a b assume "a \<in> set xs" "b \<in> set xs"
  with assms show "\<exists>c. compare_episodes rt field ascending a b = Inr c
          \<and> (c \<le> 0) = in_direction rt field ascending a b"
    by (rule compare_in_direction)
next
  fix a b assume "\<not> in_direction rt field ascending a b"
  then show "in_direction rt field ascending b a" by (rule in_direction_total)
next
  fix a b c assume "a \<in> set xs" "b \<in> set xs" "c \<in> set xs"
    "in_direction rt field ascending a b" "in_direction rt field ascending b c"
  with assms show "in_direction rt field ascending a c" by (rule in_direction_trans)
qed

lemma sort_ties_keep_order:
  assumes "array_sort (compare_episodes rt field ascending) xs = Inr ys"
  shows "filter (\<lambda>e. getSortValue rt e field = Inr k) ys
       = filter (\<lambda>e. getSortValue rt e field = Inr k) xs"
  using assms
proof (rule array_sort_stable)
  fix x y c
  assume "getSortValue rt x field = Inr k" "getSortValue rt y field = Inr k"
    "compare_episodes rt field ascending x y = Inr c"
  then show "c \<le> 0"
    by (cases k)
       (auto simp: compare_episodes_def js_lt_def to_primitive_def Let_def bindE_def num_lt_irrefl
             split: sum.splits if_splits)
qed

section \<open>CSV escaping round trip\<close>

lemma undouble_double: "undouble_quotes (double_quotes s) = s"
proof (induction s)
  case Nil
  then show ?case by (simp add: double_quotes_def)
next
  case (Cons c s)
  then show ?case
    by (cases s) (auto simp: double_quotes_def)
qed

lemma unescape_quoted: "rfc4180_unescape (dquote # double_quotes s @ [dquote]) = s"
  by (simp add: rfc4180_unescape_def undouble_double butlast_append)

lemma unescape_plain: "\<not> needs_quoting s \<Longrightarrow> rfc4180_unescape s = s"
  by (cases s) (auto simp: rfc4180_unescape_def needs_quoting_def list_ex_iff)

lemma escapeCSV_string:
  "escapeCSV rt (JStr s) =
     Inr (if needs_quoting s then dquote # double_quotes s @ [dquote] else s)"
  by (simp add: escapeCSV_def)

text \<open>
  Claim C7. The escaper maps \<^verbatim>\<open>null\<close>/\<^verbatim>\<open>undefined\<close> to the empty string and escapes
  any other value through its string; a string is wrapped in double quotes, its
  quotes doubled, exactly when it holds a comma, a double quote or a newline, and
  is returned unchanged otherwise; reading the escaped field back as RFC 4180
  prescribes gives the original string, for every string.
\<close>

theorem escapeCSV_rfc4180:
  "(nullish v \<longrightarrow> escapeCSV rt v = Inr []) \<and>
   (\<not> nullish v \<longrightarrow> escapeCSV rt v = bindE (to_string rt v) (\<lambda>text. escapeCSV rt (JStr text))) \<and>
   escapeCSV rt (JStr s) =
     Inr (if \<exists>c\<in>set s. c = comma \<or> c = dquote \<or> c = newline
          then [dquote] @ concat (map (\<lambda>c. if c = dquote then [dquote, dquote] else [c]) s) @ [dquote]
          else s) \<and>
   (\<forall>t. escapeCSV rt (JStr s) = Inr t \<longrightarrow> rfc4180_unescape t = s)"
proof (intro conjI impI allI)
  assume "nullish v"
  then show "escapeCSV rt v = Inr []"
    by (simp add: escapeCSV_def needs_quoting_def)
next
  assume "\<not> nullish v"
  then show "escapeCSV rt v = bindE (to_string rt v) (\<lambda>text. escapeCSV rt (JStr text))"
    by (simp add: escapeCSV_def)
next
  show "escapeCSV rt (JStr s) =
     Inr (if \<exists>c\<in>set s. c = comma \<or> c = dquote \<or> c = newline
          then [dquote] @ concat (map (\<lambda>c. if c = dquote then [dquote, dquote] else [c]) s) @ [dquote]
          else s)"
    by (auto simp: escapeCSV_string needs_quoting_def list_ex_iff double_quotes_def)
next
  fix t
  assume "escapeCSV rt (JStr s) = Inr t"
  then show "rfc4180_unescape t = s"
    by (auto simp: escapeCSV_string unescape_quoted unescape_plain split: if_splits)
qed

text \<open>The same at \<^verbatim>\<open>null\<close>, at the number 12 and at the string \<^verbatim>\<open>a,"b\<close> followed by a newline.\<close>

theorem escapeCSV_rfc4180_witness:
  "escapeCSV utc_host JNull = Inr [] \<and>
   escapeCSV utc_host (JNum (Fin 12)) = Inr ''12'' \<and>
   escapeCSV utc_host (JStr [CHR ''a'', comma, dquote, CHR ''b'', newline])
     = Inr [dquote, CHR ''a'', comma, dquote, dquote, CHR ''b'', newline, dquote] \<and>
   rfc4180_unescape [dquote, CHR ''a'', comma, dquote, dquote, CHR ''b'', newline, dquote]
     = [CHR ''a'', comma, dquote, CHR ''b'', newline]"
proof -
  let ?s = "[CHR ''a'', comma, dquote, CHR ''b'', newline]"
  have n: "nullish JNull" by simp
  have m: "\<not> nullish (JNum (Fin 12))" by simp
  have d: "decimal_of_rat 12 = ''12''" by code_simp
  have e: "escapeCSV utc_host (JStr ''12'') = Inr ''12''"
    by (simp add: escapeCSV_string needs_quoting_def dquote_def comma_def newline_def)
  have q: "escapeCSV utc_host (JStr ?s)
      = Inr [dquote, CHR ''a'', comma, dquote, dquote, CHR ''b'', newline, dquote]"
    using escapeCSV_rfc4180 [of JNull utc_host ?s]
    by (simp add: dquote_def comma_def newline_def)
  from escapeCSV_rfc4180 [of JNull utc_host ?s] n
  have a: "escapeCSV utc_host JNull = Inr []" by blast
  from escapeCSV_rfc4180 [of "JNum (Fin 12)" utc_host ?s] m
  have "escapeCSV utc_host (JNum (Fin 12))
      = bindE (to_string utc_host (JNum (Fin 12))) (\<lambda>text. escapeCSV utc_host (JStr text))"
    by blast
  then have b: "escapeCSV utc_host (JNum (Fin 12)) = Inr ''12''"
    by (simp add: num_to_string_def utc_host_def d e [unfolded utc_host_def])
  from escapeCSV_rfc4180 [of JNull utc_host ?s] q
  have c: "rfc4180_unescape [dquote, CHR ''a'', comma, dquote, dquote, CHR ''b'', newline, dquote] = ?s"
    by blast
  show ?thesis using a b q c by simp
qed

section \<open>Empty actor (C10)\<close>

text \<open>
  Claim C10. A doctor or companion whose \<^verbatim>\<open>actor\<close> is the empty string is formatted
  as \<^verbatim>\<open>"N/A"\<close>, exactly like one whose \<^verbatim>\<open>actor\<close> is absent (with or without the
  secondary part); so an episode carrying the one and an episode carrying the
  other, otherwise equal, get the same filter verdict, the same sort key for every
  field, and the same row values, which are what the table and the CSV export show.
\<close>

theorem empty_actor_as_absent:
  assumes d: "get_prop d ''actor'' = JStr []" and d': "get_prop d' ''actor'' = JUndefined"
    and c: "get_prop c ''actor'' = JStr []" and c': "get_prop c' ''actor'' = JUndefined"
  shows "formatDoctor rt d inc = Inr (JStr ''N/A'') \<and>
         formatDoctor rt d' inc = Inr (JStr ''N/A'') \<and>
         formatCompanion rt c inc = Inr (JStr ''N/A'') \<and>
         formatCompanion rt c' inc = Inr (JStr ''N/A'') \<and>
         matches_filter rt text (JObj ((''doctor'', d) # (''companion'', c) # kvs))
           = matches_filter rt text (JObj ((''doctor'', d') # (''companion'', c') # kvs)) \<and>
         getSortValue rt (JObj ((''doctor'', d) # (''companion'', c) # kvs)) field
           = getSortValue rt (JObj ((''doctor'', d') # (''companion'', c') # kvs)) field \<and>
         row_values rt (JObj ((''doctor'', d) # (''companion'', c) # kvs))
           = row_values rt (JObj ((''doctor'', d') # (''companion'', c') # kvs))"
proof -
  have fd: "formatDoctor rt d b = Inr (JStr ''N/A'')" "formatDoctor rt d' b = Inr (JStr ''N/A'')" for b
    using d d' by (simp_all add: formatDoctor_falsy_actor)
  have fc: "formatCompanion rt c b = Inr (JStr ''N/A'')" "formatCompanion rt c' b = Inr (JStr ''N/A'')" for b
    using c c' by (simp_all add: formatCompanion_falsy_actor)
  have m: "matches_filter rt text (JObj ((''doctor'', d) # (''companion'', c) # kvs))
           = matches_filter rt text (JObj ((''doctor'', d') # (''companion'', c') # kvs))"
    by (simp add: matches_filter_def member_def fd fc)
  have g: "getSortValue rt (JObj ((''doctor'', d) # (''companion'', c) # kvs)) field
           = getSortValue rt (JObj ((''doctor'', d') # (''companion'', c') # kvs)) field"
    by (simp add: getSortValue_def member_def fd fc cast_count_def)
  have r: "row_values rt (JObj ((''doctor'', d) # (''companion'', c) # kvs))
           = row_values rt (JObj ((''doctor'', d') # (''companion'', c') # kvs))"
    by (simp add: row_values_def member_def fd fc cast_count_def)
  show ?thesis using fd fc m g r by simp
qed


text \<open>The same on the sample doctors and companions, under the filter text \<^verbatim>\<open>n/a\<close>.\<close>

theorem empty_actor_as_absent_witness:
  "get_prop doctor_empty_actor ''actor'' = JStr [] \<and>
   get_prop doctor_no_actor ''actor'' = JUndefined \<and>
   get_prop companion_empty_actor ''actor'' = JStr [] \<and>
   get_prop JNull ''actor'' = JUndefined \<and>
   formatDoctor utc_host doctor_empty_actor True = Inr (JStr ''N/A'') \<and>
   formatDoctor utc_host doctor_no_actor True = Inr (JStr ''N/A'') \<and>
   formatCompanion utc_host companion_empty_actor True = Inr (JStr ''N/A'') \<and>
   formatCompanion utc_host JNull True = Inr (JStr ''N/A'') \<and>
   matches_filter utc_host ''n/a''
       (JObj [(''doctor'', doctor_empty_actor), (''companion'', companion_empty_actor),
              (''title'', JStr ''Robot'')])
     = matches_filter utc_host ''n/a''
         (JObj [(''doctor'', doctor_no_actor), (''companion'', JNull), (''title'', JStr ''Robot'')]) \<and>
   getSortValue utc_host
       (JObj [(''doctor'', doctor_empty_actor), (''companion'', companion_empty_actor),
              (''title'', JStr ''Robot'')]) ''doctor''
     = getSortValue utc_host
         (JObj [(''doctor'', doctor_no_actor), (''companion'', JNull), (''title'', JStr ''Robot'')])
         ''doctor'' \<and>
   row_values utc_host
       (JObj [(''doctor'', doctor_empty_actor), (''companion'', companion_empty_actor),
              (''title'', JStr ''Robot'')])
     = row_values utc_host
         (JObj [(''doctor'', doctor_no_actor), (''companion'', JNull), (''title'', JStr ''Robot'')])"
proof -
  have h: "get_prop doctor_empty_actor ''actor'' = JStr []"
    "get_prop doctor_no_actor ''actor'' = JUndefined"
    "get_prop companion_empty_actor ''actor'' = JStr []"
    "get_prop JNull ''actor'' = JUndefined"
    by (simp_all add: doctor_empty_actor_def doctor_no_actor_def companion_empty_actor_def)
  from empty_actor_as_absent [OF h, of utc_host True "''n/a''" "[(''title'', JStr ''Robot'')]" "''doctor''"] h
  show ?thesis by simp
qed

section \<open>Focus index (C8)\<close>

text \<open>
  Claim C8. After any sequence of events the focus index is \<open>-1\<close> or an index of
  the visible sequence. Every recomputation (\<^verbatim>\<open>applyFiltersAndSort\<close>, hence every
  change of the filter text and every header activation) leaves it at \<open>-1\<close>. An
  arrow key does nothing when nothing is visible, and otherwise moves the index by
  \<open>+1\<close> or \<open>-1\<close> clamped to \<open>[0, visibleCount - 1]\<close>; so up at index 0 and down
  at the last index change nothing.
\<close>

theorem focus_index_invariant:
  "focus_in_range (fst (run rt u events)) \<and>
   focusedRowIndex (fst (applyFiltersAndSort rt s)) = - 1 \<and>
   focusedRowIndex (fst (filter_input rt name s)) = - 1 \<and>
   focusedRowIndex (fst (header_click rt field s)) = - 1 \<and>
   (key e = ''ArrowDown'' \<or> key e = ''ArrowUp'' \<longrightarrow>
      handleKeyboardNavigation rt e s =
        (if filtered s = [] then (s, None)
         else (s\<lparr>focusedRowIndex :=
                    max 0 (min (int (length (filtered s)) - 1)
                      (focusedRowIndex s + (if key e = ''ArrowDown'' then 1 else - 1)))\<rparr>,
               None))) \<and>
   (key e = ''ArrowUp'' \<and> focusedRowIndex s = 0 \<longrightarrow>
      fst (handleKeyboardNavigation rt e s) = s) \<and>
   (key e = ''ArrowDown'' \<and> filtered s \<noteq> [] \<and> focusedRowIndex s = int (length (filtered s)) - 1 \<longrightarrow>
      fst (handleKeyboardNavigation rt e s) = s)"
proof (intro conjI impI)
  show "focus_in_range (fst (run rt u events))"
    by (rule run_in_range)
  show "focusedRowIndex (fst (applyFiltersAndSort rt s)) = - 1"
    by (rule apply_focus)
  show "focusedRowIndex (fst (filter_input rt name s)) = - 1"
    by (rule filter_input_focus)
  show "focusedRowIndex (fst (header_click rt field s)) = - 1"
    by (rule header_click_focus)
next
  assume "key e = ''ArrowDown'' \<or> key e = ''ArrowUp''"
  then show "handleKeyboardNavigation rt e s =
        (if filtered s = [] then (s, None)
         else (s\<lparr>focusedRowIndex :=
                    max 0 (min (int (length (filtered s)) - 1)
                      (focusedRowIndex s + (if key e = ''ArrowDown'' then 1 else - 1)))\<rparr>,
               None))"
    by (rule arrow_key)
next
  assume a: "key e = ''ArrowUp'' \<and> focusedRowIndex s = 0"
  then have "handleKeyboardNavigation rt e s =
     (if filtered s = [] then (s, None) else (s\<lparr>focusedRowIndex := 0\<rparr>, None))"
    by (auto simp: arrow_key)
  with a show "fst (handleKeyboardNavigation rt e s) = s"
    by (cases s) auto
next
  assume a: "key e = ''ArrowDown'' \<and> filtered s \<noteq> [] \<and> focusedRowIndex s = int (length (filtered s)) - 1"
  then have "handleKeyboardNavigation rt e s =
     (s\<lparr>focusedRowIndex := int (length (filtered s)) - 1\<rparr>, None)"
    by (auto simp: arrow_key)
  with a show "fst (handleKeyboardNavigation rt e s) = s"
    by (cases s) auto
qed

text \<open>
  Five visible records: up at index 0 and down at index 4 leave the state as it
  is, down at index 0 gives index 1; with nothing visible an arrow key does nothing.
\<close>

theorem focus_index_invariant_witness:
  "fst (handleKeyboardNavigation utc_host \<lparr>key = ''ArrowUp'', activeElement = OtherElement\<rparr> five_rows)
     = five_rows \<and>
   fst (handleKeyboardNavigation utc_host \<lparr>key = ''ArrowDown'', activeElement = OtherElement\<rparr>
          (five_rows\<lparr>focusedRowIndex := 4\<rparr>))
     = five_rows\<lparr>focusedRowIndex := 4\<rparr> \<and>
   focusedRowIndex (fst (handleKeyboardNavigation utc_host
          \<lparr>key = ''ArrowDown'', activeElement = OtherElement\<rparr> five_rows)) = 1 \<and>
   handleKeyboardNavigation utc_host \<lparr>key = ''ArrowDown'', activeElement = OtherElement\<rparr>
          initial_state = (initial_state, None)"
proof -
  let ?up = "\<lparr>key = ''ArrowUp'', activeElement = OtherElement\<rparr>"
  let ?down = "\<lparr>key = ''ArrowDown'', activeElement = OtherElement\<rparr>"
  have len: "length (filtered five_rows) = 5" "focusedRowIndex five_rows = 0"
    by (simp_all add: five_rows_def)
  have a: "fst (handleKeyboardNavigation utc_host ?up five_rows) = five_rows"
    using focus_index_invariant [of utc_host sample_page "[]" five_rows "[]" "[]" ?up] len
    by simp
  have b: "fst (handleKeyboardNavigation utc_host ?down (five_rows\<lparr>focusedRowIndex := 4\<rparr>))
      = five_rows\<lparr>focusedRowIndex := 4\<rparr>"
    using focus_index_invariant
      [of utc_host sample_page "[]" "five_rows\<lparr>focusedRowIndex := 4\<rparr>" "[]" "[]" ?down] len
    by simp
  have c: "focusedRowIndex (fst (handleKeyboardNavigation utc_host ?down five_rows)) = 1"
    using focus_index_invariant [of utc_host sample_page "[]" five_rows "[]" "[]" ?down] len
    by auto
  have d: "handleKeyboardNavigation utc_host ?down initial_state = (initial_state, None)"
    using focus_index_invariant [of utc_host sample_page "[]" initial_state "[]" "[]" ?down]
    by (simp add: initial_state_def)
  show ?thesis using a b c d by simp
qed

section \<open>Filter (C1)\<close>

text \<open>
  Claim C1, as amended. On records whose title, writer and director are strings or
  absent and whose doctor's and companion's actor is a string or falsy, a record
  passes the filter, and so is in the visible sequence, if and only if the
  lower-cased filter text is a substring of one of five texts: the lower-cased
  title, writer or director, each the empty string when absent, or the lower-cased
  actor of the doctor or of the companion, which is \<^verbatim>\<open>n/a\<close> (not the empty string)
  when the actor is absent, \<^verbatim>\<open>null\<close> or empty. With an empty filter text every record
  passes.
\<close>

theorem filter_visible_iff:
  assumes "\<forall>ep\<in>set eps. filterable ep"
  shows "array_filter (matches_filter rt (toLowerCase name)) eps
           = Inr (filter (\<lambda>ep. \<exists>t\<in>set (searched_texts ep). \<exists>p q. t = p @ toLowerCase name @ q) eps)
         \<and> (\<forall>ys. visible_sequence rt eps name field ascending = Inr ys \<longrightarrow>
               set ys = {ep \<in> set eps. \<exists>t\<in>set (searched_texts ep). \<exists>p q. t = p @ toLowerCase name @ q})
         \<and> (name = [] \<longrightarrow> array_filter (matches_filter rt (toLowerCase name)) eps = Inr eps)"
proof -
  let ?q = "\<lambda>ep. \<exists>t\<in>set (searched_texts ep). \<exists>p q. t = p @ toLowerCase name @ q"
  have m: "matches_filter rt (toLowerCase name) ep = Inr (?q ep)" if "ep \<in> set eps" for ep
    using that assms
    by (simp add: matches_filter_filterable list_ex_iff str_includes_iff)
  then have f: "array_filter (matches_filter rt (toLowerCase name)) eps = Inr (filter ?q eps)"
    by (rule array_filter_total)
  have v: "set ys = {ep \<in> set eps. ?q ep}"
    if "visible_sequence rt eps name field ascending = Inr ys" for ys
  proof -
    from that f have "array_sort (compare_episodes rt field ascending) (filter ?q eps) = Inr ys"
      by (simp add: visible_sequence_def)
    then have "set ys = set (filter ?q eps)" by (rule array_sort_set)
    then show ?thesis by simp
  qed
  have e: "array_filter (matches_filter rt (toLowerCase name)) eps = Inr eps" if "name = []"
  proof -
    have "\<exists>p q. t = p @ toLowerCase name @ q" for t :: string
      using that by (intro exI [of _ "[]"] exI [of _ t]) (simp add: toLowerCase_def)
    then have "?q ep" for ep
      by (auto simp: searched_texts_def)
    then have "filter ?q eps = eps" by simp
    with f show ?thesis by simp
  qed
  from f v e show ?thesis by blast
qed

text \<open>
  The claim as written takes the doctor's and companion's text to be empty when
  absent. An episode with a title and no doctor is shown under the filter text
  \<^verbatim>\<open>N/A\<close>, which occurs in none of the five texts so read.
\<close>

theorem filter_absent_doctor_counterexample:
  "matches_filter utc_host (toLowerCase ''N/A'') (JObj [(''title'', JStr ''Rose'')]) = Inr True
   \<and> \<not> list_ex (\<lambda>t. str_includes t (toLowerCase ''N/A''))
          (specified_texts (JObj [(''title'', JStr ''Rose'')]))"
  by (simp add: matches_filter_def member_def lower_or_empty_def formatDoctor_def
        formatCompanion_def toLowerCase_def lower_char_def specified_texts_def lowered_text_def
        str_includes_def sublist_code)

text \<open>Two sample episodes: the text \<^verbatim>\<open>Tom\<close> keeps the one with Tom Baker, the empty text keeps both.\<close>

theorem filter_visible_iff_witness:
  "list_all filterable [ep_robot, ep_rose] \<and>
   array_filter (matches_filter utc_host (toLowerCase ''Tom'')) [ep_robot, ep_rose] = Inr [ep_robot] \<and>
   array_filter (matches_filter utc_host (toLowerCase [])) [ep_robot, ep_rose] = Inr [ep_robot, ep_rose]"
proof -
  have w: "filterable ep_robot" "filterable ep_rose"
    by (simp_all add: filterable_def ep_robot_def ep_rose_def text_or_absent_def actor_usable_def)
  then have h: "\<forall>ep\<in>set [ep_robot, ep_rose]. filterable ep" by simp
  have l: "toLowerCase ''Tom'' = ''tom''"
    by (simp add: toLowerCase_def lower_char_def)
  have q: "(\<exists>t\<in>set (searched_texts ep_robot). \<exists>p q. t = p @ ''tom'' @ q)"
          "\<not> (\<exists>t\<in>set (searched_texts ep_rose). \<exists>p q. t = p @ ''tom'' @ q)"
    unfolding str_includes_iff [symmetric]
    by (simp_all add: searched_texts_def ep_robot_def ep_rose_def lowered_text_def lowered_actor_def
          toLowerCase_def lower_char_def str_includes_def sublist_code)
  have "array_filter (matches_filter utc_host (toLowerCase ''Tom'')) [ep_robot, ep_rose]
      = Inr (filter (\<lambda>ep. \<exists>t\<in>set (searched_texts ep). \<exists>p q. t = p @ toLowerCase ''Tom'' @ q)
               [ep_robot, ep_rose])"
    using filter_visible_iff [OF h, of utc_host "''Tom''" "''rank''" True] by (rule conjunct1)
  also have "\<dots> = Inr [ep_robot]"
    using q by (simp add: l)
  finally have a: "array_filter (matches_filter utc_host (toLowerCase ''Tom'')) [ep_robot, ep_rose]
      = Inr [ep_robot]" .
  have "[] = ([] :: string) \<longrightarrow>
      array_filter (matches_filter utc_host (toLowerCase [])) [ep_robot, ep_rose] = Inr [ep_robot, ep_rose]"
    using filter_visible_iff [OF h, of utc_host "[]" "''rank''" True] by blast
  then have b: "array_filter (matches_filter utc_host (toLowerCase [])) [ep_robot, ep_rose]
      = Inr [ep_robot, ep_rose]"
    by blast
  from w a b show ?thesis by (simp del: array_filter.simps)
qed

section \<open>Sort keys (C2)\<close>

lemma getSortValue_doctor:
  "\<not> nullish ep \<Longrightarrow> actor_usable (get_prop ep ''doctor'') \<Longrightarrow>
     getSortValue rt ep ''doctor'' = Inr (JStr (lowered_actor (get_prop ep ''doctor'')))"
  by (simp add: getSortValue_def member_def formatDoctor_actor_only lower_actor_text)

lemma getSortValue_companion:
  "\<not> nullish ep \<Longrightarrow> actor_usable (get_prop ep ''companion'') \<Longrightarrow>
     getSortValue rt ep ''companion'' = Inr (JStr (lowered_actor (get_prop ep ''companion'')))"
  by (simp add: getSortValue_def member_def formatCompanion_actor_only lower_actor_text)

lemma getSortValue_cast_count:
  "\<not> nullish ep \<Longrightarrow> getSortValue rt ep ''cast_count'' = Inr (cast_count ep)"
  by (simp add: getSortValue_def member_def)

lemma cast_count_absent: "nullish (get_prop ep ''cast'') \<Longrightarrow> cast_count ep = JNum (Fin 0)"
  by (cases "get_prop ep ''cast''") (auto simp: cast_count_def)

lemma cast_count_array:
  "get_prop ep ''cast'' = JArr xs \<Longrightarrow> cast_count ep = JNum (Fin (of_nat (length xs)))"
  by (auto simp: cast_count_def)

lemma epoch_or_zero_cases:
  "epoch_or_zero d = JNum (case d of Some (DateAt t) \<Rightarrow> Fin (of_int t) | _ \<Rightarrow> Fin 0)"
  by (auto simp: epoch_or_zero_def split: option.splits jsdate.splits)

lemma getSortValue_broadcast_date:
  "\<not> nullish ep \<Longrightarrow> normalizeDate rt (get_prop ep ''broadcast_date'') = Inr d \<Longrightarrow>
     getSortValue rt ep ''broadcast_date''
       = Inr (JNum (case d of Some (DateAt t) \<Rightarrow> Fin (of_int t) | _ \<Rightarrow> Fin 0))"
  by (simp add: getSortValue_def member_def epoch_or_zero_cases)

lemma getSortValue_other:
  assumes "\<not> nullish ep"
    "field \<noteq> ''doctor''" "field \<noteq> ''companion''" "field \<noteq> ''cast_count''"
    "field \<noteq> ''broadcast_date''"
  shows "getSortValue rt ep field =
           (if truthy (get_prop ep field)
            then bindE (to_string rt (get_prop ep field)) (\<lambda>s. Inr (JStr (toLowerCase s)))
            else Inr (JStr []))"
  using assms by (simp add: getSortValue_def member_def toLowerCase_def)

text \<open>
  Claim C2, as amended. For a record that is not \<^verbatim>\<open>null\<close>/\<^verbatim>\<open>undefined\<close>, the sort key
  is: for \<^verbatim>\<open>doctor\<close> and \<^verbatim>\<open>companion\<close>, the lower-cased actor-only formatted string
  (when the actor is a string or falsy); for \<^verbatim>\<open>cast_count\<close>, the length of the cast,
  0 when the cast is absent; for \<^verbatim>\<open>broadcast_date\<close>, the epoch value of the
  normalized date, 0 when there is none or it is invalid; for every other field,
  the empty string whenever the field's value is falsy (absent, \<^verbatim>\<open>null\<close>, the empty
  string, 0, \<^verbatim>\<open>NaN\<close> or \<^verbatim>\<open>false\<close>), and otherwise the value's string, lower-cased.
\<close>

theorem sort_key_by_field:
  assumes "\<not> nullish ep"
  shows "(actor_usable (get_prop ep ''doctor'') \<longrightarrow>
            getSortValue rt ep ''doctor'' = Inr (JStr (lowered_actor (get_prop ep ''doctor'')))) \<and>
         (actor_usable (get_prop ep ''companion'') \<longrightarrow>
            getSortValue rt ep ''companion'' = Inr (JStr (lowered_actor (get_prop ep ''companion'')))) \<and>
         getSortValue rt ep ''cast_count'' = Inr (cast_count ep) \<and>
         (nullish (get_prop ep ''cast'') \<longrightarrow> cast_count ep = JNum (Fin 0)) \<and>
         (\<forall>xs. get_prop ep ''cast'' = JArr xs \<longrightarrow> cast_count ep = JNum (Fin (of_nat (length xs)))) \<and>
         (\<forall>d. normalizeDate rt (get_prop ep ''broadcast_date'') = Inr d \<longrightarrow>
            getSortValue rt ep ''broadcast_date''
              = Inr (JNum (case d of Some (DateAt t) \<Rightarrow> Fin (of_int t) | _ \<Rightarrow> Fin 0))) \<and>
         (field \<notin> {''doctor'', ''companion'', ''cast_count'', ''broadcast_date''} \<longrightarrow>
            (\<not> truthy (get_prop ep field) \<longrightarrow> getSortValue rt ep field = Inr (JStr [])) \<and>
            (\<forall>s. truthy (get_prop ep field) \<and> to_string rt (get_prop ep field) = Inr s \<longrightarrow>
               getSortValue rt ep field = Inr (JStr (toLowerCase s))))"
  using assms
  by (auto simp: getSortValue_doctor getSortValue_companion getSortValue_cast_count
        cast_count_absent cast_count_array getSortValue_broadcast_date getSortValue_other)

text \<open>
  The claim as written has the empty string exactly when the field is absent. A
  record with rank 0 and an empty title has both fields, and the empty string as
  the key of each.
\<close>

theorem sort_key_present_field_counterexample:
  "getSortValue utc_host (JObj [(''rank'', JNum (Fin 0)), (''title'', JStr [])]) ''rank'' = Inr (JStr [])
   \<and> get_prop (JObj [(''rank'', JNum (Fin 0)), (''title'', JStr [])]) ''rank'' = JNum (Fin 0)
   \<and> getSortValue utc_host (JObj [(''rank'', JNum (Fin 0)), (''title'', JStr [])]) ''title'' = Inr (JStr [])
   \<and> get_prop (JObj [(''rank'', JNum (Fin 0)), (''title'', JStr [])]) ''title'' = JStr []"
  by (simp add: getSortValue_def member_def toLowerCase_def)

text \<open>The keys of a sample episode with a title, a rank and a doctor, and nothing else.\<close>

theorem sort_key_by_field_witness:
  "\<not> nullish ep_robot \<and>
   getSortValue utc_host ep_robot ''doctor'' = Inr (JStr ''tom baker'') \<and>
   getSortValue utc_host ep_robot ''companion'' = Inr (JStr ''n/a'') \<and>
   getSortValue utc_host ep_robot ''cast_count'' = Inr (JNum (Fin 0)) \<and>
   getSortValue utc_host ep_robot ''broadcast_date'' = Inr (JNum (Fin 0)) \<and>
   getSortValue utc_host ep_robot ''title'' = Inr (JStr ''robot'') \<and>
   getSortValue utc_host ep_robot ''rank'' = Inr (JStr ''2'') \<and>
   getSortValue utc_host ep_robot ''era'' = Inr (JStr [])"
proof -
  have n: "\<not> nullish ep_robot" by (simp add: ep_robot_def)
  have p: "get_prop ep_robot ''doctor'' = JObj [(''actor'', JStr ''Tom Baker'')]"
    "get_prop ep_robot ''companion'' = JUndefined"
    "get_prop ep_robot ''cast'' = JUndefined"
    "get_prop ep_robot ''broadcast_date'' = JUndefined"
    "get_prop ep_robot ''title'' = JStr ''Robot''"
    "get_prop ep_robot ''rank'' = JNum (Fin 2)"
    "get_prop ep_robot ''era'' = JUndefined"
    by (simp_all add: ep_robot_def)
  have u: "actor_usable (get_prop ep_robot ''doctor'')" "actor_usable (get_prop ep_robot ''companion'')"
    by (simp_all add: p actor_usable_def)
  have l: "lowered_actor (get_prop ep_robot ''doctor'') = ''tom baker''"
    "lowered_actor (get_prop ep_robot ''companion'') = ''n/a''"
    "toLowerCase ''Robot'' = ''robot''" "toLowerCase ''2'' = ''2''"
    by (simp_all add: p lowered_actor_def lowered_text_def toLowerCase_def lower_char_def)
  have d: "normalizeDate utc_host (get_prop ep_robot ''broadcast_date'') = Inr None"
    by (simp add: p normalizeDate_def)
  have c: "cast_count ep_robot = JNum (Fin 0)"
    using sort_key_by_field [OF n, of utc_host "''title''"] p by simp
  have two: "decimal_of_rat 2 = ''2''" by code_simp
  have s: "to_string utc_host (JNum (Fin 2)) = Inr ''2''"
    by (simp add: num_to_string_def utc_host_def two)
  from sort_key_by_field [OF n, of utc_host "''title''"] u l d c p
  have a: "getSortValue utc_host ep_robot ''doctor'' = Inr (JStr ''tom baker'')"
    "getSortValue utc_host ep_robot ''companion'' = Inr (JStr ''n/a'')"
    "getSortValue utc_host ep_robot ''cast_count'' = Inr (JNum (Fin 0))"
    "getSortValue utc_host ep_robot ''broadcast_date'' = Inr (JNum (Fin 0))"
    "getSortValue utc_host ep_robot ''title'' = Inr (JStr ''robot'')"
    by simp_all
  from sort_key_by_field [OF n, of utc_host "''rank''"] p s l
  have b: "getSortValue utc_host ep_robot ''rank'' = Inr (JStr ''2'')" by simp
  from sort_key_by_field [OF n, of utc_host "''era''"] p
  have e: "getSortValue utc_host ep_robot ''era'' = Inr (JStr [])" by simp
  from n a b e show ?thesis by simp
qed

section \<open>Stable sort (C3)\<close>

lemma key_is_string:
  assumes "getSortValue rt ep field = Inr k" "field \<noteq> ''cast_count''" "field \<noteq> ''broadcast_date''"
  shows "is_string k"
  using assms
  by (auto simp: getSortValue_def bindE_def split: if_splits sum.splits)

lemma key_is_epoch:
  assumes "getSortValue rt ep ''broadcast_date'' = Inr k"
  shows "is_ordered_number k"
  using assms
  by (auto simp: getSortValue_def bindE_def epoch_or_zero_def split: if_splits sum.splits option.splits)

lemma key_is_count:
  assumes "getSortValue rt ep ''cast_count'' = Inr k"
    and "nullish (get_prop ep ''cast'') \<or> (\<exists>xs. get_prop ep ''cast'' = JArr xs)"
  shows "is_ordered_number k"
  using assms
  by (cases "get_prop ep ''cast''")
     (auto simp: getSortValue_def bindE_def cast_count_def split: if_splits sum.splits)

lemma keys_ordered_unless_cast_count:
  assumes "list_all (has_key rt field (\<lambda>k. True)) xs" "field \<noteq> ''cast_count''"
  shows "keys_ordered rt field xs"
proof (cases "field = ''broadcast_date''")
  case True
  have "has_key rt field is_ordered_number e" if "e \<in> set xs" for e
    using that assms(1) True
    by (auto simp: list_all_iff has_key_def split: sum.splits dest: key_is_epoch)
  then show ?thesis by (simp add: keys_ordered_def list_all_iff)
next
  case False
  have "has_key rt field is_string e" if "e \<in> set xs" for e
    using that assms False
    by (auto simp: list_all_iff has_key_def split: sum.splits dest: key_is_string)
  then show ?thesis by (simp add: keys_ordered_def list_all_iff)
qed

lemma keys_ordered_cast_count:
  assumes "list_all (\<lambda>e. \<not> nullish e \<and>
             (nullish (get_prop e ''cast'') \<or> (\<exists>xs. get_prop e ''cast'' = JArr xs))) xs"
  shows "keys_ordered rt ''cast_count'' xs"
proof -
  have "has_key rt ''cast_count'' is_ordered_number e" if "e \<in> set xs" for e
  proof -
    from that assms have e: "\<not> nullish e"
      "nullish (get_prop e ''cast'') \<or> (\<exists>xs. get_prop e ''cast'' = JArr xs)"
      by (auto simp: list_all_iff)
    have "getSortValue rt e ''cast_count'' = Inr (cast_count e)"
      using e(1) by (rule getSortValue_cast_count)
    with key_is_count [OF this e(2)] show ?thesis by (simp add: has_key_def)
  qed
  then show ?thesis by (simp add: keys_ordered_def list_all_iff)
qed

lemma keys_ordered_key:
  assumes "keys_ordered rt field xs" "e \<in> set xs"
  shows "getSortValue rt e field = Inr k \<longleftrightarrow> sort_key rt field e = k"
  using keys_ordered_same_kind [OF assms(1) assms(2) assms(2)] by auto

text \<open>
  Claim C3. Let \<open>xs\<close> be the records that pass the filter, and let the key
  extraction give them all strings or all numbers (it does for every field but
  \<^verbatim>\<open>cast_count\<close>, and for \<^verbatim>\<open>cast_count\<close> when every cast is an array or absent). Then
  the sort returns; the visible sequence is a permutation of \<open>xs\<close>, ordered by
  key in the direction chosen; for every key, the records with that key come in
  the order they have in \<open>xs\<close>; and the comparator on two records is the
  three-way comparison of their keys, times \<open>-1\<close> exactly when descending.
\<close>

theorem sort_is_stable:
  assumes "array_filter (matches_filter rt (toLowerCase name)) eps = Inr xs"
    and "keys_ordered rt field xs"
  shows "(\<exists>ys. visible_sequence rt eps name field ascending = Inr ys
            \<and> mset ys = mset xs
            \<and> sorted_wrt (in_direction rt field ascending) ys
            \<and> (\<forall>k. filter (\<lambda>e. sort_key rt field e = k) ys
                    = filter (\<lambda>e. sort_key rt field e = k) xs))
       \<and> (\<forall>a\<in>set xs. \<forall>b\<in>set xs.
             compare_episodes rt field ascending a b =
               Inr ((if key_lt (sort_key rt field a) (sort_key rt field b) then - 1
                     else if key_lt (sort_key rt field b) (sort_key rt field a) then 1 else 0)
                    * (if ascending then 1 else - 1)))"
proof
  from sort_by_keys [OF assms(2), of ascending] obtain ys where
    ys: "array_sort (compare_episodes rt field ascending) xs = Inr ys"
        "sorted_wrt (in_direction rt field ascending) ys"
    by blast
  have v: "visible_sequence rt eps name field ascending = Inr ys"
    using assms(1) ys(1) by (simp add: visible_sequence_def)
  have m: "mset ys = mset xs" using ys(1) by (rule array_sort_mset)
  then have set: "set ys = set xs" by (metis set_mset_mset)
  have st: "filter (\<lambda>e. sort_key rt field e = k) ys = filter (\<lambda>e. sort_key rt field e = k) xs" for k
  proof -
    have "filter (\<lambda>e. sort_key rt field e = k) ys = filter (\<lambda>e. getSortValue rt e field = Inr k) ys"
      by (rule filter_cong [OF refl]) (simp add: keys_ordered_key [OF assms(2)] set)
    also have "\<dots> = filter (\<lambda>e. getSortValue rt e field = Inr k) xs"
      using ys(1) by (rule sort_ties_keep_order)
    also have "\<dots> = filter (\<lambda>e. sort_key rt field e = k) xs"
      by (rule filter_cong [OF refl]) (simp add: keys_ordered_key [OF assms(2)])
    finally show ?thesis .
  qed
  from v m ys(2) st
  show "\<exists>ys. visible_sequence rt eps name field ascending = Inr ys
            \<and> mset ys = mset xs
            \<and> sorted_wrt (in_direction rt field ascending) ys
            \<and> (\<forall>k. filter (\<lambda>e. sort_key rt field e = k) ys
                    = filter (\<lambda>e. sort_key rt field e = k) xs)"
    by blast
next
  show "\<forall>a\<in>set xs. \<forall>b\<in>set xs.
             compare_episodes rt field ascending a b =
               Inr ((if key_lt (sort_key rt field a) (sort_key rt field b) then - 1
                     else if key_lt (sort_key rt field b) (sort_key rt field a) then 1 else 0)
                    * (if ascending then 1 else - 1))"
  proof (intro ballI)
    fix a b assume "a \<in> set xs" "b \<in> set xs"
    from keys_ordered_same_kind [OF assms(2) this] obtain ka kb where
      k: "getSortValue rt a field = Inr ka" "getSortValue rt b field = Inr kb"
         "sort_key rt field a = ka" "sort_key rt field b = kb" "same_kind ka kb"
      by blast
    from compare_by_keys [OF k(1,2,5), of ascending] k(3,4)
    show "compare_episodes rt field ascending a b =
               Inr ((if key_lt (sort_key rt field a) (sort_key rt field b) then - 1
                     else if key_lt (sort_key rt field b) (sort_key rt field a) then 1 else 0)
                    * (if ascending then 1 else - 1))"
      by simp
  qed
qed

text \<open>
  Three sample episodes sorted by doctor, descending: the two with Tom Baker come
  first, in their input order.
\<close>

theorem sort_is_stable_witness:
  "array_filter (matches_filter utc_host (toLowerCase [])) [ep_robot, ep_rose, ep_ark]
     = Inr [ep_robot, ep_rose, ep_ark] \<and>
   keys_ordered utc_host ''doctor'' [ep_robot, ep_rose, ep_ark] \<and>
   visible_sequence utc_host [ep_robot, ep_rose, ep_ark] [] ''doctor'' False
     = Inr [ep_robot, ep_ark, ep_rose] \<and>
   sorted_wrt (in_direction utc_host ''doctor'' False) [ep_robot, ep_ark, ep_rose] \<and>
   filter (\<lambda>e. sort_key utc_host ''doctor'' e = JStr ''tom baker'') [ep_robot, ep_ark, ep_rose]
     = [ep_robot, ep_ark] \<and>
   compare_episodes utc_host ''doctor'' False ep_robot ep_rose = Inr (- 1)"
proof -
  let ?eps = "[ep_robot, ep_rose, ep_ark]"
  have f: "array_filter (matches_filter utc_host (toLowerCase [])) ?eps = Inr ?eps"
    by code_simp
  have k: "keys_ordered utc_host ''doctor'' ?eps"
    by code_simp
  have v: "visible_sequence utc_host ?eps [] ''doctor'' False = Inr [ep_robot, ep_ark, ep_rose]"
    by code_simp
  have t: "filter (\<lambda>e. sort_key utc_host ''doctor'' e = JStr ''tom baker'') ?eps = [ep_robot, ep_ark]"
    by code_simp
  have c: "(if key_lt (sort_key utc_host ''doctor'' ep_robot) (sort_key utc_host ''doctor'' ep_rose)
            then - 1
            else if key_lt (sort_key utc_host ''doctor'' ep_rose) (sort_key utc_host ''doctor'' ep_robot)
                 then 1 else 0) * (if False then 1 else - 1) = (- 1 :: int)"
    by code_simp
  note s = sort_is_stable [OF f k, of False]
  from s obtain ys where
    ys: "visible_sequence utc_host ?eps [] ''doctor'' False = Inr ys"
        "sorted_wrt (in_direction utc_host ''doctor'' False) ys"
        "\<forall>k. filter (\<lambda>e. sort_key utc_host ''doctor'' e = k) ys
              = filter (\<lambda>e. sort_key utc_host ''doctor'' e = k) ?eps"
    by blast
  from ys(1) v have e: "ys = [ep_robot, ep_ark, ep_rose]" by simp
  from s have "compare_episodes utc_host ''doctor'' False ep_robot ep_rose =
      Inr ((if key_lt (sort_key utc_host ''doctor'' ep_robot) (sort_key utc_host ''doctor'' ep_rose)
            then - 1
            else if key_lt (sort_key utc_host ''doctor'' ep_rose) (sort_key utc_host ''doctor'' ep_robot)
                 then 1 else 0) * (if False then 1 else - 1))"
    by simp
  with c have cmp: "compare_episodes utc_host ''doctor'' False ep_robot ep_rose = Inr (- 1)"
    by (simp only:)
  from ys(3) e t
  have st: "filter (\<lambda>e. sort_key utc_host ''doctor'' e = JStr ''tom baker'') [ep_robot, ep_ark, ep_rose]
     = [ep_robot, ep_ark]"
    by (simp only:)
  from f k v ys(2) e st cmp show ?thesis by (simp only: simp_thms)
qed

section \<open>Header toggle (C4)\<close>

lemma header_click_sort_state:
  "sort_field (fst (header_click rt field s)) = field"
  "sort_ascending (fst (header_click rt field s)) =
     (if field = sort_field s then \<not> sort_ascending s else True)"
  by (auto simp: header_click_def apply_sort_state)

lemma header_click_filtered:
  "filtered (fst (header_click rt field s)) =
     (case visible_sequence rt (episodes s) (filters_name s) field
             (if field = sort_field s then \<not> sort_ascending s else True) of
        Inl e \<Rightarrow> filtered s
      | Inr v \<Rightarrow> v)"
  by (auto simp: header_click_def apply_filtered split: sum.splits)

lemma header_click_rest:
  "episodes (fst (header_click rt field s)) = episodes s"
  "filters_name (fst (header_click rt field s)) = filters_name s"
  by (auto simp: header_click_def apply_sort_state)

lemma header_click_twice:
  assumes "field = sort_field s" "view_current rt s"
  shows "fst (header_click rt field (fst (header_click rt field s))) = s\<lparr>focusedRowIndex := - 1\<rparr>"
proof -
  let ?s1 = "fst (header_click rt field s)"
  let ?s2 = "fst (header_click rt field ?s1)"
  have "sort_field ?s2 = sort_field s" "sort_ascending ?s2 = sort_ascending s"
    "episodes ?s2 = episodes s" "filters_name ?s2 = filters_name s" "focusedRowIndex ?s2 = - 1"
    using assms(1) by (simp_all add: header_click_sort_state header_click_rest header_click_focus)
  moreover have "filtered ?s2 = filtered s"
  proof -
    have s1: "sort_field ?s1 = field" "sort_ascending ?s1 = (\<not> sort_ascending s)"
      "episodes ?s1 = episodes s" "filters_name ?s1 = filters_name s"
      using assms(1) by (simp_all add: header_click_sort_state header_click_rest)
    have v: "visible_sequence rt (episodes s) (filters_name s) field (sort_ascending s)
        = Inr (filtered s)"
      using assms by (simp add: view_current_def)
    have "filtered ?s2 =
        (case visible_sequence rt (episodes ?s1) (filters_name ?s1) field
                (if field = sort_field ?s1 then \<not> sort_ascending ?s1 else True) of
           Inl e \<Rightarrow> filtered ?s1 | Inr v \<Rightarrow> v)"
      by (rule header_click_filtered)
    also have "\<dots> = filtered s"
      unfolding s1 by (simp add: v)
    finally show ?thesis .
  qed
  ultimately show ?thesis by simp
qed

text \<open>
  Claim C4. Activating the header of field \<open>G\<close> leaves \<open>G\<close> as the sort field, with
  the ascending flag flipped when \<open>G\<close> was the sort field already and set
  otherwise. Activating the header of the current sort field twice in succession
  gives back the state, hence the visible sequence, that was there before (the
  focus apart, which is reset), when that sequence was the one computed from the
  current settings. Activating a different header sets the direction to ascending,
  and the visible sequence is then the filtered records in ascending order of the
  new key (a second activation of that header then makes it descending).
\<close>

theorem header_toggle:
  "sort_field (fst (header_click rt G s)) = G \<and>
   sort_ascending (fst (header_click rt G s)) = (if G = sort_field s then \<not> sort_ascending s else True) \<and>
   (G = sort_field s \<and> view_current rt s \<longrightarrow>
      fst (header_click rt G (fst (header_click rt G s))) = s\<lparr>focusedRowIndex := - 1\<rparr> \<and>
      filtered (fst (header_click rt G (fst (header_click rt G s)))) = filtered s) \<and>
   (G \<noteq> sort_field s \<longrightarrow>
      sort_ascending (fst (header_click rt G s)) \<and>
      \<not> sort_ascending (fst (header_click rt G (fst (header_click rt G s)))) \<and>
      (\<forall>xs. array_filter (matches_filter rt (toLowerCase (filters_name s))) (episodes s) = Inr xs
             \<and> keys_ordered rt G xs \<longrightarrow>
           mset (filtered (fst (header_click rt G s))) = mset xs \<and>
           sorted_wrt (in_direction rt G True) (filtered (fst (header_click rt G s)))))"
proof (intro conjI impI allI)
  show "sort_field (fst (header_click rt G s)) = G"
    by (rule header_click_sort_state)
  show "sort_ascending (fst (header_click rt G s)) = (if G = sort_field s then \<not> sort_ascending s else True)"
    by (rule header_click_sort_state)
next
  assume a: "G = sort_field s \<and> view_current rt s"
  then show t: "fst (header_click rt G (fst (header_click rt G s))) = s\<lparr>focusedRowIndex := - 1\<rparr>"
    by (simp add: header_click_twice)
  then show "filtered (fst (header_click rt G (fst (header_click rt G s)))) = filtered s"
    by simp
next
  assume "G \<noteq> sort_field s"
  then show "sort_ascending (fst (header_click rt G s))"
    by (simp add: header_click_sort_state)
next
  assume "G \<noteq> sort_field s"
  then show "\<not> sort_ascending (fst (header_click rt G (fst (header_click rt G s))))"
    by (simp add: header_click_sort_state)
next
  fix xs
  assume g: "G \<noteq> sort_field s"
    and x: "array_filter (matches_filter rt (toLowerCase (filters_name s))) (episodes s) = Inr xs
             \<and> keys_ordered rt G xs"
  from sort_by_keys [of rt G xs True] x obtain ys where
    ys: "array_sort (compare_episodes rt G True) xs = Inr ys"
        "sorted_wrt (in_direction rt G True) ys"
    by blast
  from x ys(1) have "visible_sequence rt (episodes s) (filters_name s) G True = Inr ys"
    by (simp add: visible_sequence_def)
  with g have f: "filtered (fst (header_click rt G s)) = ys"
    by (simp add: header_click_filtered)
  from ys(1) have "mset ys = mset xs" by (rule array_sort_mset)
  with f ys(2) show "mset (filtered (fst (header_click rt G s))) = mset xs"
    and "sorted_wrt (in_direction rt G True) (filtered (fst (header_click rt G s)))"
    by simp_all
qed

text \<open>
  The three sample episodes sorted by rank: two clicks on \<^verbatim>\<open>rank\<close> give the state
  back (one click reverses the order); a click on \<^verbatim>\<open>doctor\<close> sorts ascending by
  doctor.
\<close>

theorem header_toggle_witness:
  "view_current utc_host sorted_by_rank \<and>
   filtered (fst (header_click utc_host ''rank'' sorted_by_rank)) = [ep_ark, ep_robot, ep_rose] \<and>
   fst (header_click utc_host ''rank'' (fst (header_click utc_host ''rank'' sorted_by_rank)))
     = sorted_by_rank \<and>
   sort_field (fst (header_click utc_host ''doctor'' sorted_by_rank)) = ''doctor'' \<and>
   sort_ascending (fst (header_click utc_host ''doctor'' sorted_by_rank)) \<and>
   keys_ordered utc_host ''doctor'' [ep_robot, ep_rose, ep_ark] \<and>
   sorted_wrt (in_direction utc_host ''doctor'' True)
     (filtered (fst (header_click utc_host ''doctor'' sorted_by_rank)))"
proof -
  have vc: "view_current utc_host sorted_by_rank" by code_simp
  have d: "filtered (fst (header_click utc_host ''rank'' sorted_by_rank)) = [ep_ark, ep_robot, ep_rose]"
    by code_simp
  have f: "sort_field sorted_by_rank = ''rank''" "focusedRowIndex sorted_by_rank = - 1"
    "episodes sorted_by_rank = [ep_robot, ep_rose, ep_ark]" "filters_name sorted_by_rank = []"
    by (simp_all add: sorted_by_rank_def)
  have af: "array_filter (matches_filter utc_host (toLowerCase [])) [ep_robot, ep_rose, ep_ark]
      = Inr [ep_robot, ep_rose, ep_ark]"
    by code_simp
  have k: "keys_ordered utc_host ''doctor'' [ep_robot, ep_rose, ep_ark]" by code_simp
  have same: "sorted_by_rank\<lparr>focusedRowIndex := - 1\<rparr> = sorted_by_rank"
    by (simp add: sorted_by_rank_def)
  note r = header_toggle [of utc_host "''rank''" sorted_by_rank]
  from r f(1) vc
  have "fst (header_click utc_host ''rank'' (fst (header_click utc_host ''rank'' sorted_by_rank)))
      = sorted_by_rank\<lparr>focusedRowIndex := - 1\<rparr>"
    by simp
  with same have twice:
    "fst (header_click utc_host ''rank'' (fst (header_click utc_host ''rank'' sorted_by_rank)))
      = sorted_by_rank"
    by simp
  note t = header_toggle [of utc_host "''doctor''" sorted_by_rank]
  have ne: "''doctor'' \<noteq> sort_field sorted_by_rank" by (simp add: f)
  from t have sf: "sort_field (fst (header_click utc_host ''doctor'' sorted_by_rank)) = ''doctor''"
    by (rule conjunct1)
  from t ne have asc: "sort_ascending (fst (header_click utc_host ''doctor'' sorted_by_rank))"
    by blast
  from t ne af k f(3,4)
  have srt: "sorted_wrt (in_direction utc_host ''doctor'' True)
     (filtered (fst (header_click utc_host ''doctor'' sorted_by_rank)))"
    by (metis (no_types, lifting))
  from vc d twice sf asc k srt show ?thesis by (simp only: simp_thms)
qed

section \<open>Date normalization (C5)\<close>

lemma normalizeDate_falsy: "\<not> truthy v \<Longrightarrow> normalizeDate rt v = Inr None"
  by (simp add: normalizeDate_def)

lemma four_digits_truthy: "is_four_digits s \<Longrightarrow> s \<noteq> []"
  by (auto simp: is_four_digits_def)

lemma normalizeDate_year:
  "is_four_digits s \<Longrightarrow>
     normalizeDate rt (JStr s) = Inr (Some (new_Date_ymd rt (string_to_number rt s) (Fin 0) (Fin 1)))"
  by (simp add: normalizeDate_def four_digits_truthy to_number_def to_primitive_def)

lemma make_day_first_of_year: "make_day (of_int y) 0 1 = day_from_year y"
  by (simp add: make_day_def truncate_rat_def month_start_def Let_def)

lemma first_of_year:
  "\<not> (0 \<le> y \<and> y \<le> 99) \<Longrightarrow>
     new_Date_ymd rt (Fin (of_int y)) (Fin 0) (Fin 1)
       = time_clip (local_to_utc rt (day_from_year y * ms_per_day))"
  by (simp add: truncate_rat_def make_day_first_of_year Let_def)

lemma first_of_year_two_digits:
  "0 \<le> y \<Longrightarrow> y \<le> 99 \<Longrightarrow>
     new_Date_ymd rt (Fin (of_int y)) (Fin 0) (Fin 1)
       = time_clip (local_to_utc rt (day_from_year (1900 + y) * ms_per_day))"
  using make_day_first_of_year [of "1900 + y"]
  by (simp add: truncate_rat_def Let_def)

lemma normalizeDate_slash:
  assumes "s \<noteq> []" "\<not> is_four_digits s" "str_includes s ''/''"
  shows "normalizeDate rt (JStr s) =
     Inr (Some (new_Date_ymd rt (prim_to_number rt (part (split_slash s) 2))
                  (minus_one (prim_to_number rt (part (split_slash s) 1)))
                  (prim_to_number rt (part (split_slash s) 0))))"
  using assms by (simp add: normalizeDate_def Let_def)

lemma normalizeDate_generic:
  assumes "s \<noteq> []" "\<not> is_four_digits s" "\<not> str_includes s ''/''"
  shows "normalizeDate rt (JStr s) =
     Inr (case date_parse rt s of
            None \<Rightarrow> None
          | Some t \<Rightarrow> (if \<bar>t\<bar> > 8640000000000000 then None else Some (DateAt t)))"
  using assms
  by (auto simp: normalizeDate_def new_Date_value_def to_primitive_def time_clip_def
           split: option.splits)

lemma normalizeDate_string_total: "\<exists>r. normalizeDate rt (JStr s) = Inr r"
proof (cases "s = []")
  case True
  then show ?thesis by (simp add: normalizeDate_falsy)
next
  case False
  then show ?thesis
    by (cases "is_four_digits s"; cases "str_includes s ''/''")
       (simp_all add: normalizeDate_year normalizeDate_slash normalizeDate_generic)
qed

lemma normalizeDate_never_invalid_generic:
  assumes "\<not> is_four_digits s" "\<not> str_includes s ''/''"
  shows "normalizeDate rt (JStr s) \<noteq> Inr (Some InvalidDate)"
proof (cases "s = []")
  case True
  then show ?thesis by (simp add: normalizeDate_falsy)
next
  case False
  with assms show ?thesis
    by (simp add: normalizeDate_generic split: option.splits)
qed

text \<open>
  Claim C5 says that \<^verbatim>\<open>normalizeDate\<close> gives January 1 of the year for four digits,
  the date for a slash form, the generic parse otherwise, and \<^verbatim>\<open>null\<close>, never an
  invalid date, on unparseable input. The lemmas above give the three paths and
  show that no string makes it throw, and that the generic path never returns an
  invalid date. The slash path has no such test: on \<^verbatim>\<open>a/b\<close> the result is an
  invalid \<^verbatim>\<open>Date\<close>, not \<^verbatim>\<open>null\<close>, and \<^verbatim>\<open>getYear\<close> then shows \<^verbatim>\<open>NaN\<close>. The four-digit
  path inherits the two-digit-year rule of the \<^verbatim>\<open>Date\<close> constructor: \<^verbatim>\<open>0050\<close> gives
  January 1 of 1950, not of the year 50.
\<close>

theorem normalizeDate_invalid_date:
  "normalizeDate utc_host (JStr ''a/b'') = Inr (Some InvalidDate) \<and>
   getYear utc_host (JStr ''a/b'') = Inr (JNum NaN) \<and>
   normalizeDate utc_host (JStr ''0050'') = Inr (Some (DateAt (day_from_year 1950 * ms_per_day))) \<and>
   day_from_year 1950 \<noteq> day_from_year 50"
  by code_simp

section \<open>Validator (C6)\<close>


lemma normalizeDate_validatable:
  assumes "validatable ep"
  shows "\<exists>d. normalizeDate rt (get_prop ep ''broadcast_date'') = Inr d"
proof (cases "truthy (get_prop ep ''broadcast_date'')")
  case True
  with assms obtain s where "get_prop ep ''broadcast_date'' = JStr s"
    by (cases "get_prop ep ''broadcast_date''") (auto simp: validatable_def string_or_falsy_def)
  then show ?thesis by (simp add: normalizeDate_string_total)
next
  case False
  then show ?thesis by (simp add: normalizeDate_falsy)
qed
















section \<open>Records of the data model\<close>

text \<open>
  Every record of the data model can be filtered, validated and sorted by any
  column: the shapes the statements above ask for are no restriction on it.
\<close>

lemma optional_string_cases:
  assumes "optional is_string v"
  obtains "nullish v" | s where "v = JStr s"
  using assms by (cases v) (auto simp: optional_def)

lemma optional_string_usable: "optional is_string v \<Longrightarrow> \<not> truthy v \<or> is_string v"
  by (cases v) (auto simp: optional_def)

lemma person_actor_usable:
  assumes "optional (person_conforms secondary) d"
  shows "actor_usable d"
proof (cases "nullish d")
  case True
  then show ?thesis by (cases d) (auto simp: actor_usable_def)
next
  case False
  with assms have "optional is_string (get_prop d ''actor'')"
    by (auto simp: optional_def person_conforms_def)
  then show ?thesis
    by (auto simp: actor_usable_def dest: optional_string_usable)
qed

lemma conforms_fields:
  assumes "conforms ep"
  shows "is_object ep"
    "optional is_number (get_prop ep ''rank'')" "optional is_string (get_prop ep ''title'')"
    "optional is_number (get_prop ep ''series'')" "optional is_string (get_prop ep ''era'')"
    "optional is_string (get_prop ep ''broadcast_date'')"
    "optional is_string (get_prop ep ''director'')" "optional is_string (get_prop ep ''writer'')"
    "optional (person_conforms ''incarnation'') (get_prop ep ''doctor'')"
    "optional (person_conforms ''character'') (get_prop ep ''companion'')"
    "optional is_array (get_prop ep ''cast'')"
  using assms by (simp_all add: conforms_def)

lemma conforms_not_nullish: "conforms ep \<Longrightarrow> \<not> nullish ep"
  by (drule conforms_fields(1)) (cases ep, simp_all)

lemma optional_string_text: "optional is_string v \<Longrightarrow> text_or_absent v"
  by (simp add: optional_def text_or_absent_def)

lemma conforms_filterable:
  assumes "conforms ep"
  shows "filterable ep"
proof -
  note f = conforms_fields [OF assms]
  from conforms_not_nullish [OF assms] optional_string_text [OF f(3)]
    person_actor_usable [OF f(9)] person_actor_usable [OF f(10)]
    optional_string_text [OF f(8)] optional_string_text [OF f(7)]
  show ?thesis
    unfolding filterable_def by (intro conjI)
qed

lemma conforms_validatable:
  assumes "conforms ep"
  shows "validatable ep"
proof -
  note f = conforms_fields [OF assms]
  from conforms_not_nullish [OF assms] optional_string_usable [OF f(3)]
    optional_string_usable [OF f(6)]
  show ?thesis
    unfolding validatable_def string_or_falsy_def by (intro conjI)
qed

lemma to_string_scalar:
  assumes "optional is_number v \<or> optional is_string v"
  shows "\<exists>s. to_string rt (if truthy v then v else JStr []) = Inr s"
  using assms by (cases v) (auto simp: optional_def)

lemma key_of_scalar:
  assumes "\<not> nullish ep"
    and "field \<noteq> ''doctor''" "field \<noteq> ''companion''" "field \<noteq> ''cast_count''"
      "field \<noteq> ''broadcast_date''"
    and "optional is_number (get_prop ep field) \<or> optional is_string (get_prop ep field)"
  shows "has_key rt field is_string ep"
proof -
  from to_string_scalar [OF assms(6), of rt] obtain s where
    s: "to_string rt (if truthy (get_prop ep field) then get_prop ep field else JStr []) = Inr s"
    by blast
  have "getSortValue rt ep field = Inr (JStr (toLowerCase s))"
    unfolding getSortValue_other [OF assms(1-5)]
    using s by (cases "truthy (get_prop ep field)") (simp_all add: toLowerCase_def)
  then show ?thesis by (simp add: has_key_def)
qed

lemma key_of_person:
  assumes "conforms ep"
  shows "has_key rt ''doctor'' is_string ep" "has_key rt ''companion'' is_string ep"
proof -
  note f = conforms_fields [OF assms]
  have n: "\<not> nullish ep" using assms by (rule conforms_not_nullish)
  show "has_key rt ''doctor'' is_string ep"
    using getSortValue_doctor [OF n person_actor_usable [OF f(9)], of rt]
    by (simp add: has_key_def)
  show "has_key rt ''companion'' is_string ep"
    using getSortValue_companion [OF n person_actor_usable [OF f(10)], of rt]
    by (simp add: has_key_def)
qed

lemma key_of_cast:
  assumes "conforms ep"
  shows "has_key rt ''cast_count'' is_ordered_number ep"
proof -
  have n: "\<not> nullish ep" using assms by (rule conforms_not_nullish)
  have "optional is_array (get_prop ep ''cast'')" using assms by (rule conforms_fields)
  then have "is_ordered_number (cast_count ep)"
    by (cases "get_prop ep ''cast''") (auto simp: optional_def cast_count_def)
  with getSortValue_cast_count [OF n, of rt] show ?thesis
    by (simp add: has_key_def)
qed

lemma key_of_date:
  assumes "conforms ep"
  shows "has_key rt ''broadcast_date'' is_ordered_number ep"
proof -
  have n: "\<not> nullish ep" using assms by (rule conforms_not_nullish)
  have "validatable ep" using assms by (rule conforms_validatable)
  then obtain d where d: "normalizeDate rt (get_prop ep ''broadcast_date'') = Inr d"
    using normalizeDate_validatable by blast
  from getSortValue_broadcast_date [OF n d] show ?thesis
    by (cases d) (simp_all add: has_key_def split: jsdate.splits)
qed

lemma key_of_text:
  assumes "conforms ep"
  shows "has_key rt ''rank'' is_string ep" "has_key rt ''title'' is_string ep"
    "has_key rt ''series'' is_string ep" "has_key rt ''era'' is_string ep"
    "has_key rt ''director'' is_string ep" "has_key rt ''writer'' is_string ep"
proof -
  note f = conforms_fields [OF assms]
  have n: "\<not> nullish ep" using assms by (rule conforms_not_nullish)
  show "has_key rt ''rank'' is_string ep"
    using n f(2) by (intro key_of_scalar) simp_all
  show "has_key rt ''title'' is_string ep"
    using n f(3) by (intro key_of_scalar) simp_all
  show "has_key rt ''series'' is_string ep"
    using n f(4) by (intro key_of_scalar) simp_all
  show "has_key rt ''era'' is_string ep"
    using n f(5) by (intro key_of_scalar) simp_all
  show "has_key rt ''director'' is_string ep"
    using n f(7) by (intro key_of_scalar) simp_all
  show "has_key rt ''writer'' is_string ep"
    using n f(8) by (intro key_of_scalar) simp_all
qed

lemma conforms_key:
  assumes "conforms ep" "field \<in> set columns"
  shows "if field = ''broadcast_date'' \<or> field = ''cast_count''
         then has_key rt field is_ordered_number ep else has_key rt field is_string ep"
proof -
  from assms(2) consider "field = ''rank''" | "field = ''title''" | "field = ''series''"
    | "field = ''era''" | "field = ''broadcast_date''" | "field = ''director''"
    | "field = ''writer''" | "field = ''doctor''" | "field = ''companion''"
    | "field = ''cast_count''"
    unfolding columns_def by fastforce
  then show ?thesis
  proof cases
    case 1 then show ?thesis using key_of_text(1) [OF assms(1), of rt] by simp
  next
    case 2 then show ?thesis using key_of_text(2) [OF assms(1), of rt] by simp
  next
    case 3 then show ?thesis using key_of_text(3) [OF assms(1), of rt] by simp
  next
    case 4 then show ?thesis using key_of_text(4) [OF assms(1), of rt] by simp
  next
    case 5 then show ?thesis using key_of_date [OF assms(1), of rt] by simp
  next
    case 6 then show ?thesis using key_of_text(5) [OF assms(1), of rt] by simp
  next
    case 7 then show ?thesis using key_of_text(6) [OF assms(1), of rt] by simp
  next
    case 8 then show ?thesis using key_of_person(1) [OF assms(1), of rt] by simp
  next
    case 9 then show ?thesis using key_of_person(2) [OF assms(1), of rt] by simp
  next
    case 10 then show ?thesis using key_of_cast [OF assms(1), of rt] by simp
  qed
qed

lemma conforms_keys_ordered:
  assumes "list_all conforms xs" "field \<in> set columns"
  shows "keys_ordered rt field xs"
proof (cases "field = ''broadcast_date'' \<or> field = ''cast_count''")
  case True
  have "has_key rt field is_ordered_number e" if "e \<in> set xs" for e
    using conforms_key [of e field rt] that assms True by (auto simp: list_all_iff)
  then show ?thesis by (simp add: keys_ordered_def list_all_iff)
next
  case False
  have "has_key rt field is_string e" if "e \<in> set xs" for e
    using conforms_key [of e field rt] that assms False by (auto simp: list_all_iff)
  then show ?thesis by (simp add: keys_ordered_def list_all_iff)
qed

lemma array_filter_subset:
  "array_filter p xs = Inr ys \<Longrightarrow> set ys \<subseteq> set xs"
  by (induction xs arbitrary: ys) (auto split: sum.splits if_splits)

lemma apply_view_current:
  assumes "visible_sequence rt (episodes s) (filters_name s) (sort_field s) (sort_ascending s) = Inr v"
  shows "view_current rt (fst (applyFiltersAndSort rt s))"
  using assms by (simp add: view_current_def apply_sort_state apply_filtered)

lemma conforms_visible_sequence:
  assumes "list_all conforms eps" "field \<in> set columns"
  shows "\<exists>v. visible_sequence rt eps name field ascending = Inr v"
proof -
  let ?q = "\<lambda>ep. list_ex (\<lambda>t. str_includes t (toLowerCase name)) (searched_texts ep)"
  have "matches_filter rt (toLowerCase name) ep = Inr (?q ep)" if "ep \<in> set eps" for ep
  proof -
    from that assms(1) have "conforms ep" by (simp add: list_all_iff)
    then have "filterable ep" by (rule conforms_filterable)
    then show ?thesis by (rule matches_filter_filterable)
  qed
  then have xs: "array_filter (matches_filter rt (toLowerCase name)) eps = Inr (filter ?q eps)"
    by (rule array_filter_total)
  have "list_all conforms (filter ?q eps)"
    using assms(1) by (simp add: list_all_iff)
  then have "keys_ordered rt field (filter ?q eps)"
    using assms(2) by (rule conforms_keys_ordered)
  from sort_by_keys [OF this, of ascending] obtain ys where
    "array_sort (compare_episodes rt field ascending) (filter ?q eps) = Inr ys"
    by blast
  with xs have "visible_sequence rt eps name field ascending = Inr ys"
    by (simp add: visible_sequence_def)
  then show ?thesis by blast
qed

section \<open>Loader (C9)\<close>

lemma load_clears_loading:
  "\<not> loading_visible (fst (snd (loadEpisodes rt now sched outcomes s u)))"
  by (simp add: loadEpisodes_def showLoading_def Let_def split: prod.splits)

lemma mapE_values: "mapE (\<lambda>r. r) (map Inr xs) = Inr xs"
  by (induction xs) simp_all

lemma find_none_resolved:
  "find (\<lambda>i. i < length (map Inr xs) \<and> isl (map Inr xs ! i)) order = None"
  by (simp add: find_None_iff)

lemma promise_all_values: "promise_all order (map Inr xs) = Inr xs"
  unfolding promise_all_def find_none_resolved by (simp add: mapE_values)

lemma promise_all_rejected:
  assumes "find (\<lambda>i. i < length results \<and> isl (results ! i)) order = Some i"
    and "results ! i = Inl e"
  shows "promise_all order results = Inl e"
  using assms by (simp add: promise_all_def)

lemma settle_resolved: "map settle_fetch (map Resolved responses) = map Inr responses"
  by (simp add: settle_fetch_def)

lemma isl_settle_fetch: "isl (settle_fetch out) = is_rejected out"
  by (cases out) (simp_all add: settle_fetch_def)

lemma await_first_rejected:
  assumes "first_rejected order outcomes = Some i" "outcomes ! i = Rejected m"
  shows "promise_all order (map settle_fetch outcomes) = Inl (Failure m)"
proof (rule promise_all_rejected)
  have "find (\<lambda>j. j < length (map settle_fetch outcomes) \<and> isl (map settle_fetch outcomes ! j)) order
      = find (\<lambda>j. j < length outcomes \<and> is_rejected (outcomes ! j)) order"
    by (rule find_cong [OF refl]) (auto simp: isl_settle_fetch)
  with assms(1) show "find (\<lambda>j. j < length (map settle_fetch outcomes)
      \<and> isl (map settle_fetch outcomes ! j)) order = Some i"
    by (simp add: first_rejected_def)
  from assms(1) have "i < length outcomes"
    by (auto simp: first_rejected_def find_Some_iff)
  with assms(2) show "map settle_fetch outcomes ! i = Inl (Failure m)"
    by (simp add: settle_fetch_def)
qed

lemma check_responses_not_ok:
  "find (\<lambda>r. \<not> ok r) responses = Some r \<Longrightarrow>
     check_responses responses = Inl (Failure (fetch_failure_message r))"
  by (simp add: check_responses_def fetch_failure_message_def)

lemma load_not_ok:
  assumes "find (\<lambda>r. \<not> ok r) responses = Some r"
  shows "loadEpisodes rt now sched (map Resolved responses) s u =
           (s, showLoading False (showError (fetch_failure_message r) (showLoading True u)), 0)"
  using assms
  by (simp add: loadEpisodes_def load_try_def settle_resolved promise_all_values
        check_responses_not_ok error_message_def del: map_map)

lemma load_rejected:
  assumes "first_rejected (fetch_order sched) outcomes = Some i" "outcomes ! i = Rejected m"
  shows "loadEpisodes rt now sched outcomes s u =
           (s, showLoading False (showError m (showLoading True u)), 0)"
  using await_first_rejected [OF assms]
  by (simp add: loadEpisodes_def load_try_def error_message_def)

lemma shown_error:
  "error_visible (showLoading False (showError details u))"
  "error_text (showLoading False (showError details u)) =
     ''Error: Could not load episodes. Please check your network connection and try again.''
       @ [newline] @ ''Details: '' @ details"
  by (simp_all add: showLoading_def showError_def)

text \<open>
  Claim C9, as amended. Whatever the fetches, the parse and the validation do, and
  in whatever order the promises settle, the loading indicator is hidden when
  \<^verbatim>\<open>loadEpisodes\<close> ends. When every fetch resolves with a response and one of them
  is not ok, the load ends with the error of the first such response in the order
  of the sources, which names its URL and status text; no \<^verbatim>\<open>res.json()\<close> has been
  called and the state is unchanged. When a fetch is rejected, the load ends with
  the message of the rejection that settles first, whatever the other fetches give.
\<close>

theorem load_exit_paths:
  "\<not> loading_visible (fst (snd (loadEpisodes rt now sched outcomes s u))) \<and>
   (find (\<lambda>r. \<not> ok r) responses = Some r \<longrightarrow>
      loadEpisodes rt now sched (map Resolved responses) s u =
        (s, showLoading False (showError (fetch_failure_message r) (showLoading True u)), 0)
      \<and> error_visible (fst (snd (loadEpisodes rt now sched (map Resolved responses) s u)))
      \<and> error_text (fst (snd (loadEpisodes rt now sched (map Resolved responses) s u))) =
          ''Error: Could not load episodes. Please check your network connection and try again.''
            @ [newline] @ ''Details: Network fetch failure from '' @ url r
            @ '' ('' @ statusText r @ '')'') \<and>
   (first_rejected (fetch_order sched) outcomes = Some i \<and> outcomes ! i = Rejected m \<longrightarrow>
      loadEpisodes rt now sched outcomes s u =
        (s, showLoading False (showError m (showLoading True u)), 0))"
proof (intro conjI impI)
  show "\<not> loading_visible (fst (snd (loadEpisodes rt now sched outcomes s u)))"
    by (rule load_clears_loading)
next
  assume a: "find (\<lambda>r. \<not> ok r) responses = Some r"
  show l: "loadEpisodes rt now sched (map Resolved responses) s u =
          (s, showLoading False (showError (fetch_failure_message r) (showLoading True u)), 0)"
    using a by (rule load_not_ok)
  show "error_visible (fst (snd (loadEpisodes rt now sched (map Resolved responses) s u)))"
    unfolding l by (simp add: shown_error)
  show "error_text (fst (snd (loadEpisodes rt now sched (map Resolved responses) s u))) =
            ''Error: Could not load episodes. Please check your network connection and try again.''
              @ [newline] @ ''Details: Network fetch failure from '' @ url r
              @ '' ('' @ statusText r @ '')''"
    unfolding l by (simp add: shown_error fetch_failure_message_def)
next
  assume "first_rejected (fetch_order sched) outcomes = Some i \<and> outcomes ! i = Rejected m"
  then show "loadEpisodes rt now sched outcomes s u =
          (s, showLoading False (showError m (showLoading True u)), 0)"
    by (simp add: load_rejected)
qed

text \<open>
  The claim as written promises the source and status of any response that is not
  ok. With a response of status 404 and another fetch that is rejected, in either
  settle order, the error shown is the rejection's, and has neither the URL nor
  the status text of the 404.
\<close>

theorem load_mixed_failure_counterexample:
  "error_text (fst (snd (loadEpisodes utc_host 0 \<lparr>fetch_order = [0, 1], json_order = []\<rparr>
                           [Resolved not_found, Rejected ''Failed to fetch''] initial_state sample_page)))
     = ''Error: Could not load episodes. Please check your network connection and try again.''
         @ [newline] @ ''Details: Failed to fetch''
   \<and> error_text (fst (snd (loadEpisodes utc_host 0 \<lparr>fetch_order = [1, 0], json_order = []\<rparr>
                           [Resolved not_found, Rejected ''Failed to fetch''] initial_state sample_page)))
     = ''Error: Could not load episodes. Please check your network connection and try again.''
         @ [newline] @ ''Details: Failed to fetch''
   \<and> \<not> str_includes
         (''Error: Could not load episodes. Please check your network connection and try again.''
            @ [newline] @ ''Details: Failed to fetch'')
         (url not_found)
   \<and> \<not> str_includes
         (''Error: Could not load episodes. Please check your network connection and try again.''
            @ [newline] @ ''Details: Failed to fetch'')
         (statusText not_found)"
  by code_simp

text \<open>
  A single response of status 404; and two rejected fetches of which the second
  settles first, so that its message is the one shown.
\<close>

theorem load_exit_paths_witness:
  "find (\<lambda>r. \<not> ok r) [not_found] = Some not_found \<and>
   loadEpisodes utc_host 0 \<lparr>fetch_order = [1, 0], json_order = []\<rparr> (map Resolved [not_found])
       initial_state sample_page
     = (initial_state,
        showLoading False (showError (fetch_failure_message not_found) (showLoading True sample_page)),
        0) \<and>
   error_text (fst (snd (loadEpisodes utc_host 0 \<lparr>fetch_order = [1, 0], json_order = []\<rparr>
                           (map Resolved [not_found]) initial_state sample_page)))
     = ''Error: Could not load episodes. Please check your network connection and try again.''
         @ [newline] @ ''Details: Network fetch failure from '' @ url not_found
         @ '' ('' @ statusText not_found @ '')'' \<and>
   url not_found = ''https://example.org/episodes-01.json'' \<and>
   statusText not_found = ''Not Found'' \<and>
   first_rejected [1, 0] [Rejected ''Failed to fetch'', Rejected ''Load failed''] = Some 1 \<and>
   loadEpisodes utc_host 0 \<lparr>fetch_order = [1, 0], json_order = []\<rparr>
       [Rejected ''Failed to fetch'', Rejected ''Load failed''] initial_state sample_page
     = (initial_state,
        showLoading False (showError ''Load failed'' (showLoading True sample_page)), 0)"
proof -
  let ?sched = "\<lparr>fetch_order = [1, 0], json_order = []\<rparr>"
  let ?two = "[Rejected ''Failed to fetch'', Rejected ''Load failed'']"
  have f: "find (\<lambda>r. \<not> ok r) [not_found] = Some not_found"
    by (simp add: not_found_def)
  have j: "first_rejected [1, 0] ?two = Some 1"
    by (simp add: first_rejected_def)
  have j': "first_rejected (fetch_order ?sched) ?two = Some 1 \<and> ?two ! 1 = Rejected ''Load failed''"
    using j by simp
  have u: "url not_found = ''https://example.org/episodes-01.json''" "statusText not_found = ''Not Found''"
    by (simp_all add: not_found_def)
  note t = load_exit_paths [of utc_host 0 ?sched ?two initial_state sample_page "[not_found]" not_found
      1 "''Load failed''"]
  from t have "find (\<lambda>r. \<not> ok r) [not_found] = Some not_found \<longrightarrow>
      loadEpisodes utc_host 0 ?sched (map Resolved [not_found]) initial_state sample_page =
        (initial_state,
         showLoading False (showError (fetch_failure_message not_found) (showLoading True sample_page)), 0)
      \<and> error_visible (fst (snd (loadEpisodes utc_host 0 ?sched (map Resolved [not_found]) initial_state sample_page)))
      \<and> error_text (fst (snd (loadEpisodes utc_host 0 ?sched (map Resolved [not_found]) initial_state sample_page))) =
          ''Error: Could not load episodes. Please check your network connection and try again.''
            @ [newline] @ ''Details: Network fetch failure from '' @ url not_found
            @ '' ('' @ statusText not_found @ '')''"
    by (rule conjunct2 [THEN conjunct1])
  from this f have a: "loadEpisodes utc_host 0 ?sched (map Resolved [not_found]) initial_state sample_page =
        (initial_state,
         showLoading False (showError (fetch_failure_message not_found) (showLoading True sample_page)), 0)
      \<and> error_visible (fst (snd (loadEpisodes utc_host 0 ?sched (map Resolved [not_found]) initial_state sample_page)))
      \<and> error_text (fst (snd (loadEpisodes utc_host 0 ?sched (map Resolved [not_found]) initial_state sample_page))) =
          ''Error: Could not load episodes. Please check your network connection and try again.''
            @ [newline] @ ''Details: Network fetch failure from '' @ url not_found
            @ '' ('' @ statusText not_found @ '')''"
    by (rule mp)
  from t have "first_rejected (fetch_order ?sched) ?two = Some 1 \<and> ?two ! 1 = Rejected ''Load failed'' \<longrightarrow>
      loadEpisodes utc_host 0 ?sched ?two initial_state sample_page =
        (initial_state, showLoading False (showError ''Load failed'' (showLoading True sample_page)), 0)"
    by (rule conjunct2 [THEN conjunct2])
  from this j' have c: "loadEpisodes utc_host 0 ?sched ?two initial_state sample_page =
        (initial_state, showLoading False (showError ''Load failed'' (showLoading True sample_page)), 0)"
    by (rule mp)
  from a have a1: "loadEpisodes utc_host 0 ?sched (map Resolved [not_found]) initial_state sample_page =
        (initial_state,
         showLoading False (showError (fetch_failure_message not_found) (showLoading True sample_page)), 0)"
    by (rule conjunct1)
  from a have a3: "error_text (fst (snd (loadEpisodes utc_host 0 ?sched (map Resolved [not_found]) initial_state sample_page))) =
          ''Error: Could not load episodes. Please check your network connection and try again.''
            @ [newline] @ ''Details: Network fetch failure from '' @ url not_found
            @ '' ('' @ statusText not_found @ '')''"
    by (rule conjunct2 [THEN conjunct2])
  show ?thesis by (intro conjI) (rule f a1 a3 u j c)+
qed

end
